theory Spec2Isabelle
  imports Main "HOL-Library.Word"
begin

unbundle bit_operations_syntax

section \<open>The energy scheduling class (kernel/sched/energy.c)\<close>

text \<open>
  A shallow embedding of the energy scheduling class. C identifiers that start with two
  underscores are written with the prefix \<open>uu_\<close> (\<open>__diff_wa\<close> is \<open>uu_diff_wa\<close>).
  Fields of a struct carry the struct's prefix where two structs share a field name
  (\<open>et_\<close> for \<open>struct energy_task\<close>, \<open>grq_\<close> for \<open>struct global_rq\<close>, \<open>en_\<close> for the
  \<open>en\<close> member of \<open>struct rq\<close>). The C types \<open>u32\<close>, \<open>int\<close> and \<open>unsigned int\<close> are
  32-bit words, \<open>u64\<close> and \<open>unsigned long\<close> are 64-bit words (x86-64, the only
  architecture with the RAPL registers the file reads). The spin locks are not modelled:
  every function is read as one sequential step.
\<close>

type_synonym u32 = "32 word"
type_synonym u64 = "64 word"

subsection \<open>Internal constants\<close>

definition ETASK_RUNNING :: "32 word" where
  "ETASK_RUNNING = 1"

definition THREAD_RQ_RUNNABLE :: "32 word" where
  "THREAD_RQ_RUNNABLE = 1"

definition THREAD_RQ_QUEUED :: "32 word" where
  "THREAD_RQ_QUEUED = THREAD_RQ_RUNNABLE"

definition THREAD_CPU_RUNNABLE :: "32 word" where
  "THREAD_CPU_RUNNABLE = 2"

definition THREAD_CPU_QUEUED :: "32 word" where
  "THREAD_CPU_QUEUED = THREAD_CPU_RUNNABLE"

definition THREAD_RUNNING :: "32 word" where
  "THREAD_RUNNING = 4"

definition LOCAL_RESCHED :: "32 word" where
  "LOCAL_RESCHED = 1"

text \<open>The default scheduling slice for one thread: 10 ms in nanoseconds.\<close>

definition THREAD_SCHED_SLICE :: u64 where
  "THREAD_SCHED_SLICE = 10000000"

definition U32_MAX :: u32 where
  "U32_MAX = 0xffffffff"

subsection \<open>The RAPL counters\<close>

text \<open>\<open>struct rapl_info\<close>: the calibration constants of the RAPL subsystem.\<close>

record rapl_info =
  update_interval :: u32
  unit :: u32
  loop_package :: u32
  loop_dram :: u32
  loop_core :: u32
  loop_gpu :: u32

text \<open>\<open>__diff_wa(first, second)\<close>: the difference of two counter readings.\<close>

definition uu_diff_wa :: "u32 \<Rightarrow> u32 \<Rightarrow> u32" where
  "uu_diff_wa first second =
     (if first < second then (U32_MAX - second) + first else first - second)"

text \<open>
  \<open>__update_rapl_counter\<close>. The two local variables are definitions of their own;
  all three products and the quotient are computed in \<open>u32\<close>, the sum in \<open>u64\<close>.
  The division traps when \<open>gri.update_interval\<close> is 0: the result is \<open>None\<close>.
\<close>

definition loop_consumption :: "rapl_info \<Rightarrow> u32 \<Rightarrow> u32 \<Rightarrow> u32" where
  "loop_consumption gri loop_duration avg_loop_consumption =
     (avg_loop_consumption * loop_duration) div update_interval gri"

definition final_consumption :: "u32 \<Rightarrow> u32 \<Rightarrow> u32" where
  "final_consumption loop_cons consumption =
     (if loop_cons > consumption then 0 else consumption - loop_cons)"

definition uu_update_rapl_counter ::
  "rapl_info \<Rightarrow> u64 \<Rightarrow> u32 \<Rightarrow> u32 \<Rightarrow> u32 \<Rightarrow> u64 option" where
  "uu_update_rapl_counter gri val consumption loop_duration avg_loop_consumption =
     (if update_interval gri = 0 then None
      else Some (val + ucast
        (final_consumption (loop_consumption gri loop_duration avg_loop_consumption)
           consumption * unit gri)))"

subsection \<open>CPU masks\<close>

text \<open>
  A \<open>struct cpumask\<close> is a bitmap indexed by CPU number: a list of bits. The iterators
  \<open>for_each_cpu\<close> and \<open>for_each_cpu_and\<close> enumerate the set bits in ascending order.
\<close>

type_synonym cpumask = "bool list"

definition cpumask_test_cpu :: "nat \<Rightarrow> cpumask \<Rightarrow> bool" where
  "cpumask_test_cpu c m = (c < length m \<and> m ! c)"

definition for_each_cpu :: "cpumask \<Rightarrow> nat list" where
  "for_each_cpu m = filter (\<lambda>c. m ! c) [0..<length m]"

definition for_each_cpu_and :: "cpumask \<Rightarrow> cpumask \<Rightarrow> nat list" where
  "for_each_cpu_and m1 m2 =
     filter (\<lambda>c. m1 ! c \<and> m2 ! c) [0..<min (length m1) (length m2)]"

definition cpumask_clear :: "cpumask \<Rightarrow> cpumask" where
  "cpumask_clear m = map (\<lambda>_. False) m"

subsection \<open>Data structures\<close>

text \<open>
  Modelled from the spec: \<open>struct task_struct\<close> is declared in the host's headers,
  which are not among the sources. A thread has the fields that the class reads and
  writes: the membership flags \<open>ee.state\<close>, the CPU the thread is assigned to
  (\<open>task_cpu(t)\<close>), \<open>cpus_allowed\<close> and \<open>group_leader\<close>. The list links \<open>ee.rq\<close>
  and \<open>ee.cpu_rq\<close> are the membership of the thread in \<open>et_runnable\<close> and
  \<open>en_runnable\<close> below. Threads, energy tasks and run queues are referred to by
  pointer in the C code; here a pointer to a thread or an energy task is its address (a
  natural number) in a store, \<open>NULL\<close> is \<open>None\<close>, and a \<open>struct rq*\<close> is the number of
  its CPU (\<open>cpu_rq(cpu)\<close>, \<open>cpu_of(rq)\<close>).
\<close>

record thread =
  ee_state :: "32 word"
  task_cpu :: nat
  cpus_allowed :: cpumask
  group_leader :: nat

text \<open>\<open>struct energy_task\<close>.\<close>

record energy_task =
  et_state :: "32 word"
  et_task :: "nat option"
  et_domain :: cpumask
  et_runnable :: "nat list"
  et_nr_runnable :: u32
  et_start_running :: u64

text \<open>\<open>struct global_rq\<close>; \<open>grq_tasks\<close> is the ring of energy tasks, first entry first.\<close>

record global_rq =
  grq_running :: "32 word"
  grq_tasks :: "nat list"
  grq_nr_tasks :: u32
  grq_nr_threads :: u32
  grq_start_running :: u64
  grq_stop_running :: u64

text \<open>
  Modelled from the spec: \<open>struct rq\<close> and its member \<open>en\<close> (\<open>struct e_rq\<close>, the local
  run queue) are declared in \<open>sched.h\<close>, which is not among the sources. The fields
  are those that \<open>init_e_rq\<close> and the functions of the class use; the counters
  \<open>en.nr_runnable\<close> (threads in the list \<open>en.runnable\<close>) and \<open>en.nr_assigned\<close> are
  taken to be 32 bits wide like the \<open>u32\<close> counters of the energy task and of the
  global run queue, \<open>nr_running\<close> is the host's \<open>unsigned int\<close>, \<open>clock\<close> is what
  \<open>rq_clock(rq)\<close> returns, and \<open>need_resched\<close> is the flag that
  \<open>set_tsk_need_resched(rq->curr)\<close> sets.
\<close>

record rq =
  nr_running :: "32 word"
  clock :: u64
  need_resched :: bool
  en_resched_flags :: "32 word"
  en_domain :: cpumask
  en_runnable :: "nat list"
  en_nr_runnable :: u32
  en_nr_assigned :: u32
  en_blocked :: bool
  en_curr :: "nat option"
  en_curr_e_task :: "nat option"

text \<open>
  The state of the scheduler: the global run queue \<open>grq\<close>, the store of energy tasks,
  the store of threads, the per-CPU run queues and the mask of online CPUs.
\<close>

record sys =
  grq :: global_rq
  etasks :: "nat \<Rightarrow> energy_task"
  threads :: "nat \<Rightarrow> thread"
  cpu_rq :: "nat \<Rightarrow> rq"
  cpu_online_mask :: cpumask

text \<open>Writing through a pointer to a run queue, a thread, an energy task, and to \<open>grq\<close>.\<close>

definition upd_rq :: "nat \<Rightarrow> (rq \<Rightarrow> rq) \<Rightarrow> sys \<Rightarrow> sys" where
  "upd_rq c f s = s\<lparr>cpu_rq := (cpu_rq s)(c := f (cpu_rq s c))\<rparr>"

definition upd_thread :: "nat \<Rightarrow> (thread \<Rightarrow> thread) \<Rightarrow> sys \<Rightarrow> sys" where
  "upd_thread t f s = s\<lparr>threads := (threads s)(t := f (threads s t))\<rparr>"

definition upd_etask :: "nat \<Rightarrow> (energy_task \<Rightarrow> energy_task) \<Rightarrow> sys \<Rightarrow> sys" where
  "upd_etask e f s = s\<lparr>etasks := (etasks s)(e := f (etasks s e))\<rparr>"

definition upd_grq :: "(global_rq \<Rightarrow> global_rq) \<Rightarrow> sys \<Rightarrow> sys" where
  "upd_grq f s = s\<lparr>grq := f (grq s)\<rparr>"

subsection \<open>The host scheduler's accounting\<close>

text \<open>
  Modelled from the spec: \<open>add_nr_running\<close> and \<open>sub_nr_running\<close> are the host's
  run-queue accounting (\<open>sched.h\<close>, not among the sources); they raise and lower the
  CPU's visible load \<open>rq->nr_running\<close> by \<open>count\<close>.
\<close>

definition add_nr_running :: "rq \<Rightarrow> u32 \<Rightarrow> rq" where
  "add_nr_running r count = r\<lparr>nr_running := nr_running r + count\<rparr>"

definition sub_nr_running :: "rq \<Rightarrow> u32 \<Rightarrow> rq" where
  "sub_nr_running r count = r\<lparr>nr_running := nr_running r - count\<rparr>"

text \<open>
  Modelled from the spec: \<open>nr_running()\<close> is the host's count of runnable work on the
  whole machine (\<open>core.c\<close>, not among the sources): the sum of the visible load of the
  online CPUs, an \<open>unsigned long\<close>.
\<close>

definition host_nr_running :: "sys \<Rightarrow> u64" where
  "host_nr_running s =
     sum_list (map (\<lambda>c. ucast (nr_running (cpu_rq s c))) (for_each_cpu (cpu_online_mask s)))"

subsection \<open>Internal functions which are part of others\<close>

definition uu_inc_nr_running :: "rq \<Rightarrow> rq" where
  "uu_inc_nr_running r =
     (let r = (if \<not> en_blocked r then add_nr_running r 1 else r)
      in r\<lparr>en_nr_assigned := en_nr_assigned r + 1\<rparr>)"

definition uu_dec_nr_running :: "rq \<Rightarrow> rq" where
  "uu_dec_nr_running r =
     (let r = (if \<not> en_blocked r then sub_nr_running r 1 else r)
      in r\<lparr>en_nr_assigned := en_nr_assigned r - 1\<rparr>)"

definition uu_acquire_cpu :: "rq \<Rightarrow> rq" where
  "uu_acquire_cpu r =
     (let r = r\<lparr>en_blocked := False\<rparr>
      in add_nr_running r (en_nr_assigned r))"

definition uu_release_cpu :: "rq \<Rightarrow> rq" where
  "uu_release_cpu r =
     (let r = r\<lparr>en_blocked := True\<rparr>
      in sub_nr_running r (en_nr_assigned r))"

subsection \<open>Threads and energy tasks\<close>

definition thread_on_rq_queued :: "thread \<Rightarrow> bool" where
  "thread_on_rq_queued t = (ee_state t AND THREAD_RQ_QUEUED \<noteq> 0)"

definition thread_on_cpu_rq_queued :: "thread \<Rightarrow> bool" where
  "thread_on_cpu_rq_queued t = (ee_state t AND THREAD_CPU_QUEUED \<noteq> 0)"

definition thread_cpu_running :: "thread \<Rightarrow> bool" where
  "thread_cpu_running t = (ee_state t AND THREAD_RUNNING \<noteq> 0)"

definition task_rq :: "sys \<Rightarrow> nat \<Rightarrow> nat" where
  "task_rq s t = task_cpu (threads s t)"

text \<open>
  \<open>find_task\<close>, over the \<open>group_leader\<close> pointers; \<open>thread_group_leader(t)\<close> is the
  host's test \<open>t->group_leader == t\<close>.
\<close>

definition thread_group_leader :: "(nat \<Rightarrow> nat) \<Rightarrow> nat \<Rightarrow> bool" where
  "thread_group_leader leader t = (leader t = t)"

definition find_task :: "(nat \<Rightarrow> nat) \<Rightarrow> nat \<Rightarrow> nat" where
  "find_task leader t = (if thread_group_leader leader t then t else leader t)"

definition init_grq :: "sys \<Rightarrow> sys" where
  "init_grq s =
     upd_grq (\<lambda>g. g\<lparr>grq_tasks := [], grq_nr_tasks := 0, grq_nr_threads := 0,
                     grq_stop_running := 0, grq_start_running := 0\<rparr>) s"

definition init_energy_task :: "energy_task \<Rightarrow> energy_task" where
  "init_energy_task e =
     e\<lparr>et_state := 0, et_task := None, et_domain := cpumask_clear (et_domain e),
       et_runnable := [], et_nr_runnable := 0, et_start_running := 0\<rparr>"

text \<open>\<open>list_add\<close> puts the new entry first; \<open>list_del\<close> unlinks it.\<close>

definition enqueue_energy_task :: "nat \<Rightarrow> sys \<Rightarrow> sys" where
  "enqueue_energy_task e s =
     upd_grq (\<lambda>g. g\<lparr>grq_tasks := e # grq_tasks g, grq_nr_tasks := grq_nr_tasks g + 1\<rparr>) s"

definition dequeue_energy_task :: "nat \<Rightarrow> sys \<Rightarrow> sys" where
  "dequeue_energy_task e s =
     upd_grq (\<lambda>g. g\<lparr>grq_tasks := remove1 e (grq_tasks g),
                     grq_nr_tasks := grq_nr_tasks g - 1\<rparr>) s"

definition find_energy_task :: "sys \<Rightarrow> nat \<Rightarrow> nat option" where
  "find_energy_task s t =
     find (\<lambda>e. et_task (etasks s e) = Some (find_task (\<lambda>x. group_leader (threads s x)) t))
       (grq_tasks (grq s))"

text \<open>
  \<open>create_energy_task\<close>; the first argument is what \<open>kmalloc\<close> returned, \<open>None\<close> for
  \<open>NULL\<close>.
\<close>

definition create_energy_task :: "nat option \<Rightarrow> nat \<Rightarrow> sys \<Rightarrow> nat option \<times> sys" where
  "create_energy_task kmalloc t s =
     (case kmalloc of
        None \<Rightarrow> (None, s)
      | Some e \<Rightarrow>
          (let task = find_task (\<lambda>x. group_leader (threads s x)) t;
               s = upd_etask e init_energy_task s;
               s = upd_etask e (\<lambda>x. x\<lparr>et_task := Some task\<rparr>) s;
               s = enqueue_energy_task e s
           in (Some e, s)))"

definition free_energy_task :: "nat \<Rightarrow> sys \<Rightarrow> sys" where
  "free_energy_task e s = dequeue_energy_task e s"

text \<open>\<open>enqueue_runnable\<close> and \<open>dequeue_runnable\<close>; \<open>BUG()\<close> is the result \<open>None\<close>.\<close>

definition enqueue_runnable :: "nat \<Rightarrow> nat \<Rightarrow> nat \<Rightarrow> sys \<Rightarrow> sys option" where
  "enqueue_runnable c e t s =
     (if thread_on_rq_queued (threads s t) then None
      else
        (let s = upd_etask e (\<lambda>x. x\<lparr>et_runnable := t # et_runnable x,
                                     et_nr_runnable := et_nr_runnable x + 1\<rparr>) s;
             s = upd_thread t (\<lambda>x. x\<lparr>ee_state := ee_state x OR THREAD_RQ_RUNNABLE\<rparr>) s;
             s = upd_grq (\<lambda>g. g\<lparr>grq_nr_threads := grq_nr_threads g + 1\<rparr>) s;
             s = upd_rq c uu_inc_nr_running s
         in Some s))"

definition enqueue_running :: "nat \<Rightarrow> nat \<Rightarrow> sys \<Rightarrow> sys option" where
  "enqueue_running c t s =
     (if thread_on_cpu_rq_queued (threads s t) then None
      else
        (let s = upd_rq c (\<lambda>r. r\<lparr>en_runnable := t # en_runnable r,
                                  en_nr_runnable := en_nr_runnable r + 1\<rparr>) s;
             s = upd_thread t (\<lambda>x. x\<lparr>ee_state := ee_state x OR THREAD_CPU_RUNNABLE\<rparr>) s
         in Some s))"

definition dequeue_runnable :: "nat \<Rightarrow> nat \<Rightarrow> sys \<Rightarrow> sys option" where
  "dequeue_runnable e t s =
     (if \<not> thread_on_rq_queued (threads s t) then None
      else
        (let s = upd_etask e (\<lambda>x. x\<lparr>et_runnable := remove1 t (et_runnable x),
                                     et_nr_runnable := et_nr_runnable x - 1\<rparr>) s;
             s = upd_thread t (\<lambda>x. x\<lparr>ee_state := ee_state x AND NOT THREAD_RQ_RUNNABLE\<rparr>) s;
             s = upd_grq (\<lambda>g. g\<lparr>grq_nr_threads := grq_nr_threads g - 1\<rparr>) s;
             s = upd_rq (task_rq s t) uu_dec_nr_running s
         in Some s))"

subsection \<open>Scheduling slices and the switch decision\<close>

definition sched_slice_class :: "sys \<Rightarrow> u64" where
  "sched_slice_class s = ucast (grq_nr_threads (grq s)) * THREAD_SCHED_SLICE"

definition sched_slice_energy :: "sys \<Rightarrow> nat option \<Rightarrow> u64" where
  "sched_slice_energy s e_task =
     (case e_task of
        None \<Rightarrow> 0
      | Some e \<Rightarrow> ucast (et_nr_runnable (etasks s e)) * THREAD_SCHED_SLICE)"

definition sched_slice_local :: "sys \<Rightarrow> nat \<Rightarrow> u64" where
  "sched_slice_local s c =
     (if en_nr_runnable (cpu_rq s c) = 0
      then sched_slice_energy s (en_curr_e_task (cpu_rq s c))
      else sched_slice_energy s (en_curr_e_task (cpu_rq s c))
             div ucast (en_nr_runnable (cpu_rq s c)))"

definition sched_slice_other :: "sys \<Rightarrow> u64" where
  "sched_slice_other s =
     (host_nr_running s - ucast (grq_nr_threads (grq s))) * THREAD_SCHED_SLICE"

definition should_switch_to_energy :: "sys \<Rightarrow> nat \<Rightarrow> bool" where
  "should_switch_to_energy s c =
     (if grq_nr_threads (grq s) = 0 then False
      else if host_nr_running s = ucast (grq_nr_threads (grq s)) then True
      else if host_nr_running s = ucast (en_nr_assigned (cpu_rq s c)) then True
      else if host_nr_running s = 0 then True
      else
        (let now = clock (cpu_rq s c);
             not_running = (if now \<le> grq_stop_running (grq s) then 0
                            else now - grq_stop_running (grq s))
         in not_running > sched_slice_other s))"

subsection \<open>Picking the next energy task\<close>

text \<open>
  \<open>list_rotate_left\<close> moves the first entry of a list to its end. The loop of
  \<open>pick_next_energy_task\<close> is \<open>pick_next_loop\<close>; the result \<open>None\<close> stands for a loop
  that does not return and for the read through the list head of an empty ring (the
  callers ask for a task only when there is one). A returned pair is the picked task,
  \<open>None\<close> for \<open>NULL\<close>, and the state with the ring rotated.
\<close>

definition list_rotate_left :: "'a list \<Rightarrow> 'a list" where
  "list_rotate_left xs = (case xs of [] \<Rightarrow> [] | first # rest \<Rightarrow> rest @ [first])"

partial_function (option) pick_next_loop :: "nat \<Rightarrow> sys \<Rightarrow> (nat option \<times> sys) option" where
  "pick_next_loop head s =
     (case grq_tasks (grq s) of
        [] \<Rightarrow> None
      | next_e_task # _ \<Rightarrow>
          (let s = upd_grq (\<lambda>g. g\<lparr>grq_tasks := list_rotate_left (grq_tasks g)\<rparr>) s
           in if et_state (etasks s next_e_task) = 0 \<and>
                 et_nr_runnable (etasks s next_e_task) \<noteq> 0
              then Some (Some next_e_task, s)
              else (case grq_tasks (grq s) of
                      [] \<Rightarrow> None
                    | first # _ \<Rightarrow>
                        if head \<noteq> first then pick_next_loop head s else Some (None, s))))"

definition pick_next_energy_task :: "sys \<Rightarrow> (nat option \<times> sys) option" where
  "pick_next_energy_task s =
     (case grq_tasks (grq s) of
        [] \<Rightarrow> None
      | head # _ \<Rightarrow> pick_next_loop head s)"

subsection \<open>Switching a process to and from the class\<close>

text \<open>
  The host functions that \<open>do_start_energy\<close> and \<open>do_stop_energy\<close> call are parameters:
  \<open>current\<close>, \<open>find_task_by_vpid\<close>, the \<open>group_leader\<close> pointers, the threads that
  \<open>for_each_thread\<close> enumerates for a group leader, and \<open>sched_setscheduler_nocheck\<close>,
  which takes the thread, the policy and the priority, and returns a status together
  with the changed state of the kernel (of any type \<open>'k\<close>). Error numbers are those of
  the kernel: \<open>EINVAL\<close> is 22 and \<open>ESRCH\<close> is 3.
\<close>

datatype policy = SCHED_NORMAL | SCHED_ENERGY

definition EINVAL :: int where
  "EINVAL = 22"

definition ESRCH :: int where
  "ESRCH = 3"

record 'k host =
  host_current :: nat
  find_task_by_vpid :: "int \<Rightarrow> nat option"
  host_group_leader :: "nat \<Rightarrow> nat"
  for_each_thread :: "nat \<Rightarrow> nat list"
  sched_setscheduler_nocheck :: "nat \<Rightarrow> policy \<Rightarrow> int \<Rightarrow> 'k \<Rightarrow> int \<times> 'k"

fun set_policy_loop :: "'k host \<Rightarrow> policy \<Rightarrow> nat list \<Rightarrow> int \<times> 'k \<Rightarrow> int \<times> 'k" where
  "set_policy_loop h pol [] (ret, k) = (ret, k)"
| "set_policy_loop h pol (thread # rest) (ret, k) =
     set_policy_loop h pol rest (sched_setscheduler_nocheck h thread pol 0 k)"

definition do_start_energy :: "'k host \<Rightarrow> int \<Rightarrow> 'k \<Rightarrow> int \<times> 'k" where
  "do_start_energy h pid k =
     (if pid < 0 then (- EINVAL, k)
      else
        (case (if pid = 0 then Some (host_current h) else find_task_by_vpid h pid) of
           None \<Rightarrow> (- ESRCH, k)
         | Some p \<Rightarrow>
             set_policy_loop h SCHED_ENERGY
               (for_each_thread h (find_task (host_group_leader h) p)) (- ESRCH, k)))"

definition do_stop_energy :: "'k host \<Rightarrow> int \<Rightarrow> 'k \<Rightarrow> int \<times> 'k" where
  "do_stop_energy h pid k =
     (if pid < 0 then (- EINVAL, k)
      else
        (case (if pid = 0 then Some (host_current h) else find_task_by_vpid h pid) of
           None \<Rightarrow> (- ESRCH, k)
         | Some p \<Rightarrow>
             set_policy_loop h SCHED_NORMAL
               (for_each_thread h (find_task (host_group_leader h) p)) (- ESRCH, k)))"

subsection \<open>Distributing the threads of an energy task\<close>

text \<open>
  \<open>__set_task_cpu\<close> of the host is the assignment to \<open>task_cpu\<close>. In
  \<open>__distribute_energy_task\<close> the search for the run queue with the lowest load is
  \<open>find_best_rq\<close>, its loop body \<open>find_best_step\<close>: the loads are read into variables
  of type \<open>int\<close>, so they are compared as signed numbers. The body of the loop over the
  runnable threads is \<open>distribute_thread\<close>, the loop itself \<open>distribute_threads\<close>.
  \<open>enqueue_running\<close> stops in \<open>BUG()\<close> for a thread that is queued on a CPU already,
  so the functions return an optional state.
\<close>

definition resched_curr_local :: "rq \<Rightarrow> rq" where
  "resched_curr_local r =
     r\<lparr>en_resched_flags := en_resched_flags r OR LOCAL_RESCHED, need_resched := True\<rparr>"

definition clear_resched_curr_local :: "rq \<Rightarrow> rq" where
  "clear_resched_curr_local r =
     r\<lparr>en_resched_flags := en_resched_flags r AND NOT LOCAL_RESCHED\<rparr>"

definition move_local_task :: "nat \<Rightarrow> nat \<Rightarrow> sys \<Rightarrow> sys" where
  "move_local_task t cpu s =
     (if task_cpu (threads s t) = cpu then s
      else
        (let s = upd_rq (task_rq s t) uu_dec_nr_running s;
             s = upd_thread t (\<lambda>x. x\<lparr>task_cpu := cpu\<rparr>) s;
             s = upd_rq (task_rq s t) uu_inc_nr_running s
         in s))"

definition set_energy_task :: "nat option \<Rightarrow> rq \<Rightarrow> rq" where
  "set_energy_task e_task r = r\<lparr>en_curr_e_task := e_task\<rparr>"

definition distribute_local_task :: "nat \<Rightarrow> nat \<Rightarrow> sys \<Rightarrow> sys option" where
  "distribute_local_task c t s =
     (let s = upd_rq c clear_resched_curr_local s;
          s = move_local_task t c s
      in enqueue_running c t s)"

definition find_best_step :: "sys \<Rightarrow> nat \<Rightarrow> nat \<times> 32 word \<Rightarrow> nat \<times> 32 word" where
  "find_best_step s cpu acc =
     (case acc of (best_rq, min_load) \<Rightarrow>
        (let load = en_nr_runnable (cpu_rq s cpu)
         in if load <s min_load then (cpu, load) else (best_rq, min_load)))"

definition find_best_rq :: "sys \<Rightarrow> nat \<Rightarrow> nat \<Rightarrow> nat" where
  "find_best_rq s e t =
     fst (fold (find_best_step s)
            (for_each_cpu_and (et_domain (etasks s e)) (cpus_allowed (threads s t)))
            (task_rq s t, en_nr_runnable (cpu_rq s (task_rq s t))))"

definition distribute_thread :: "nat \<Rightarrow> nat \<Rightarrow> sys \<Rightarrow> sys option" where
  "distribute_thread e t s =
     (if thread_on_cpu_rq_queued (threads s t) then Some s
      else distribute_local_task (find_best_rq s e t) t s)"

fun distribute_threads :: "nat \<Rightarrow> nat list \<Rightarrow> sys \<Rightarrow> sys option" where
  "distribute_threads e [] s = Some s"
| "distribute_threads e (t # ts) s =
     (case distribute_thread e t s of
        None \<Rightarrow> None
      | Some s' \<Rightarrow> distribute_threads e ts s')"

definition uu_distribute_energy_task :: "nat \<Rightarrow> sys \<Rightarrow> sys option" where
  "uu_distribute_energy_task e s =
     (case distribute_threads e (et_runnable (etasks s e)) s of
        None \<Rightarrow> None
      | Some s' \<Rightarrow>
          Some (fold (\<lambda>cpu s. upd_rq cpu (\<lambda>r. resched_curr_local (set_energy_task (Some e) r)) s)
                  (for_each_cpu (et_domain (etasks s' e))) s'))"

subsection \<open>Acquiring and releasing the CPUs of a domain\<close>

definition acquire_cpus :: "cpumask \<Rightarrow> sys \<Rightarrow> sys" where
  "acquire_cpus domain s =
     fold (\<lambda>cpu s. if en_blocked (cpu_rq s cpu) then upd_rq cpu uu_acquire_cpu s else s)
       (for_each_cpu domain) s"

definition release_cpus :: "cpumask \<Rightarrow> sys \<Rightarrow> sys" where
  "release_cpus domain s =
     fold (\<lambda>cpu s.
             if \<not> en_blocked (cpu_rq s cpu) \<and>
                nr_running (cpu_rq s cpu) = en_nr_assigned (cpu_rq s cpu)
             then upd_rq cpu uu_release_cpu s else s)
       (for_each_cpu domain) s"

definition check_cpus :: "cpumask \<Rightarrow> sys \<Rightarrow> sys" where
  "check_cpus domain s =
     fold (\<lambda>cpu s.
             if en_blocked (cpu_rq s cpu) \<and> nr_running (cpu_rq s cpu) > 0
             then upd_rq cpu uu_acquire_cpu s
             else if \<not> en_blocked (cpu_rq s cpu) \<and>
                     nr_running (cpu_rq s cpu) = en_nr_assigned (cpu_rq s cpu)
             then upd_rq cpu uu_release_cpu s else s)
       (for_each_cpu domain) s"

subsection \<open>The states of the global run queue\<close>

text \<open>
  The states that the class reaches from \<open>init_grq\<close>. The steps are the functions that
  write \<open>grq.tasks\<close>, \<open>grq.nr_threads\<close> or the \<open>nr_runnable\<close> of an energy task, as
  their callers use them: \<open>create_energy_task\<close> with memory that is not a queued task,
  \<open>free_energy_task\<close> on a task without runnable threads (the test of
  \<open>put_energy_task\<close>), \<open>enqueue_runnable\<close> and \<open>dequeue_runnable\<close> on a task of the
  ring (found or created by \<open>enqueue_task_energy\<close> and \<open>dequeue_task_energy\<close>) and
  \<open>pick_next_energy_task\<close>; every other function leaves these three alone, which is
  the last rule.
\<close>

inductive reachable :: "sys \<Rightarrow> bool" where
  reach_init: "reachable (init_grq s)"
| reach_create:
    "reachable s \<Longrightarrow> e \<notin> set (grq_tasks (grq s)) \<Longrightarrow>
     reachable (snd (create_energy_task (Some e) t s))"
| reach_free:
    "reachable s \<Longrightarrow> et_nr_runnable (etasks s e) = 0 \<Longrightarrow> reachable (free_energy_task e s)"
| reach_enqueue:
    "reachable s \<Longrightarrow> e \<in> set (grq_tasks (grq s)) \<Longrightarrow> enqueue_runnable c e t s = Some s' \<Longrightarrow>
     reachable s'"
| reach_dequeue:
    "reachable s \<Longrightarrow> e \<in> set (grq_tasks (grq s)) \<Longrightarrow> dequeue_runnable e t s = Some s' \<Longrightarrow>
     reachable s'"
| reach_pick:
    "reachable s \<Longrightarrow> pick_next_energy_task s = Some (r, s') \<Longrightarrow> reachable s'"
| reach_other:
    "reachable s \<Longrightarrow> grq_tasks (grq s') = grq_tasks (grq s) \<Longrightarrow>
     grq_nr_threads (grq s') = grq_nr_threads (grq s) \<Longrightarrow>
     \<forall>e \<in> set (grq_tasks (grq s)). et_nr_runnable (etasks s' e) = et_nr_runnable (etasks s e) \<Longrightarrow>
     reachable s'"

code_pred reachable .

subsection \<open>Notions used in the statements\<close>

text \<open>
  The sum of the \<open>nr_runnable\<close> counts of the energy tasks in \<open>grq.tasks\<close>, in the
  arithmetic of the counters.
\<close>

definition sum_nr_runnable :: "sys \<Rightarrow> u32" where
  "sum_nr_runnable s = sum_list (map (\<lambda>e. et_nr_runnable (etasks s e)) (grq_tasks (grq s)))"

text \<open>
  What the class contributes to the visible load \<open>rq->nr_running\<close> of a CPU: its
  assignment count while the CPU is unblocked, nothing while it is blocked.
\<close>

definition en_contribution :: "rq \<Rightarrow> u32" where
  "en_contribution r = (if en_blocked r then 0 else en_nr_assigned r)"

text \<open>
  For the statements about \<open>pick_next_energy_task\<close>: the test of its loop, the state
  with another ring, and the state with an energy task marked running (as
  \<open>distribute_energy_task\<close> marks it).
\<close>

definition pick_candidate :: "sys \<Rightarrow> nat \<Rightarrow> bool" where
  "pick_candidate s e = (et_state (etasks s e) = 0 \<and> et_nr_runnable (etasks s e) \<noteq> 0)"

definition set_ring :: "nat list \<Rightarrow> sys \<Rightarrow> sys" where
  "set_ring xs s = upd_grq (\<lambda>g. g\<lparr>grq_tasks := xs\<rparr>) s"

definition set_running :: "nat \<Rightarrow> sys \<Rightarrow> sys" where
  "set_running e s = upd_etask e (\<lambda>x. x\<lparr>et_state := ETASK_RUNNING\<rparr>) s"

text \<open>
  For the statements about the distribution. \<open>best_choice s cs b0 b\<close> says that \<open>b\<close>
  is the choice among the present CPU \<open>b0\<close> and the candidates \<open>cs\<close> in the order of
  their enumeration: either \<open>b\<close> is \<open>b0\<close> and no candidate has a lower load, or \<open>b\<close> is
  a candidate with a load lower than that of \<open>b0\<close> and of every candidate enumerated
  before it, and not higher than that of any candidate. The other three read the CPU of a
  thread, the queue of a CPU and the count of a CPU off an optional state.
\<close>

definition best_choice :: "sys \<Rightarrow> nat list \<Rightarrow> nat \<Rightarrow> nat \<Rightarrow> bool" where
  "best_choice s cs b0 b =
     ((b = b0 \<and>
       list_all (\<lambda>c. sint (en_nr_runnable (cpu_rq s b0)) \<le> sint (en_nr_runnable (cpu_rq s c))) cs) \<or>
      (b \<in> set cs \<and>
       sint (en_nr_runnable (cpu_rq s b)) < sint (en_nr_runnable (cpu_rq s b0)) \<and>
       list_all (\<lambda>c. sint (en_nr_runnable (cpu_rq s b)) < sint (en_nr_runnable (cpu_rq s c)))
         (takeWhile (\<lambda>c. c \<noteq> b) cs) \<and>
       list_all (\<lambda>c. sint (en_nr_runnable (cpu_rq s b)) \<le> sint (en_nr_runnable (cpu_rq s c))) cs))"

definition placed_on :: "sys option \<Rightarrow> nat \<Rightarrow> nat option" where
  "placed_on r t = map_option (\<lambda>s. task_cpu (threads s t)) r"

definition queue_of :: "sys option \<Rightarrow> nat \<Rightarrow> nat list option" where
  "queue_of r c = map_option (\<lambda>s. en_runnable (cpu_rq s c)) r"

definition count_of :: "sys option \<Rightarrow> nat \<Rightarrow> u32 option" where
  "count_of r c = map_option (\<lambda>s. en_nr_runnable (cpu_rq s c)) r"

text \<open>
  For the statements about \<open>do_start_energy\<close>: the statuses that the attempts on the
  threads of a list return, in order; and the first failure among statuses, 0 when
  there is none, which is what the specification says is propagated.
\<close>

fun attempt_statuses :: "'k host \<Rightarrow> policy \<Rightarrow> nat list \<Rightarrow> 'k \<Rightarrow> int list" where
  "attempt_statuses h pol [] k = []"
| "attempt_statuses h pol (t # ts) k =
     fst (sched_setscheduler_nocheck h t pol 0 k)
       # attempt_statuses h pol ts (snd (sched_setscheduler_nocheck h t pol 0 k))"

definition first_failure :: "int list \<Rightarrow> int" where
  "first_failure rets = (case filter (\<lambda>r. r \<noteq> 0) rets of [] \<Rightarrow> 0 | r # _ \<Rightarrow> r)"

text \<open>
  For the statement about the enter decision. \<open>managed_counted\<close> is the number of
  managed threads that the host's count of runnable work includes: the contributions of
  the class on the online CPUs. \<open>unmanaged_running\<close> is the runnable work on the host
  that the class does not manage: on each online CPU, the visible load beyond the
  contribution of the class. \<open>host_counts_managed\<close> says that the host's count
  includes every managed thread: the visible load of each online CPU holds the
  contribution of the class, and the contributions add up to the global thread count,
  so that no managed thread is assigned to a blocked CPU.
\<close>

definition managed_counted :: "sys \<Rightarrow> nat" where
  "managed_counted s =
     sum_list (map (\<lambda>c. unat (en_contribution (cpu_rq s c)))
                   (for_each_cpu (cpu_online_mask s)))"

definition unmanaged_running :: "sys \<Rightarrow> nat" where
  "unmanaged_running s =
     sum_list (map (\<lambda>c. unat (nr_running (cpu_rq s c)) - unat (en_contribution (cpu_rq s c)))
                   (for_each_cpu (cpu_online_mask s)))"

definition host_counts_managed :: "sys \<Rightarrow> bool" where
  "host_counts_managed s \<longleftrightarrow>
     list_all (\<lambda>c. en_contribution (cpu_rq s c) \<le> nr_running (cpu_rq s c))
              (for_each_cpu (cpu_online_mask s)) \<and>
     managed_counted s = unat (grq_nr_threads (grq s))"

text \<open>
  The enter decision as the specification words it, for comparison with
  \<open>should_switch_to_energy\<close>: the third test compares this CPU's own visible load with
  its own assignment count.
\<close>

definition should_switch_to_energy_spec :: "sys \<Rightarrow> nat \<Rightarrow> bool" where
  "should_switch_to_energy_spec s c =
     (if grq_nr_threads (grq s) = 0 then False
      else if host_nr_running s = ucast (grq_nr_threads (grq s)) then True
      else if nr_running (cpu_rq s c) = en_nr_assigned (cpu_rq s c) then True
      else if host_nr_running s = 0 then True
      else
        (let now = clock (cpu_rq s c);
             not_running = (if now \<le> grq_stop_running (grq s) then 0
                            else now - grq_stop_running (grq s))
         in not_running > sched_slice_other s))"

subsection \<open>Example states\<close>

text \<open>
  Calibration constants with the given update interval, a unit constant of 61 and a
  loop energy of 5 units for the package counter.
\<close>

definition example_rapl_info :: "u32 \<Rightarrow> rapl_info" where
  "example_rapl_info interval =
     \<lparr>update_interval = interval, unit = 61, loop_package = 5, loop_dram = 0,
      loop_core = 0, loop_gpu = 0\<rparr>"

text \<open>
  A run queue with the given visible load, clock, assignment count and blocked flag and
  nothing queued; and a machine of two online CPUs with the given run queues, global
  thread count and time at which the class last stopped running.
\<close>

definition example_rq :: "32 word \<Rightarrow> u64 \<Rightarrow> u32 \<Rightarrow> bool \<Rightarrow> rq" where
  "example_rq n clk assigned blocked =
     \<lparr>nr_running = n, clock = clk, need_resched = False, en_resched_flags = 0,
      en_domain = [True, True], en_runnable = [], en_nr_runnable = 0,
      en_nr_assigned = assigned, en_blocked = blocked, en_curr = None,
      en_curr_e_task = None\<rparr>"

definition example_thread :: "32 word \<Rightarrow> nat \<Rightarrow> cpumask \<Rightarrow> thread" where
  "example_thread st c allowed =
     \<lparr>ee_state = st, task_cpu = c, cpus_allowed = allowed, group_leader = 0\<rparr>"

definition example_etask :: "32 word \<Rightarrow> cpumask \<Rightarrow> nat list \<Rightarrow> u32 \<Rightarrow> energy_task" where
  "example_etask st domain ts n =
     \<lparr>et_state = st, et_task = Some 0, et_domain = domain, et_runnable = ts,
      et_nr_runnable = n, et_start_running = 0\<rparr>"

definition enter_example :: "rq \<Rightarrow> rq \<Rightarrow> u32 \<Rightarrow> u64 \<Rightarrow> sys" where
  "enter_example r0 r1 n stop =
     \<lparr>grq = \<lparr>grq_running = 0, grq_tasks = [], grq_nr_tasks = 0, grq_nr_threads = n,
             grq_start_running = 0, grq_stop_running = stop\<rparr>,
      etasks = (\<lambda>_. example_etask 0 [] [] 0),
      threads = (\<lambda>_. example_thread 0 0 [True, True]),
      cpu_rq = (\<lambda>_. r1)(0 := r0),
      cpu_online_mask = [True, True]\<rparr>"

text \<open>
  The ring of three energy tasks at the addresses 10, 20 and 30: the first not running
  with no runnable thread, the second not running with two, the third running with
  three.
\<close>

definition ring_example :: sys where
  "ring_example =
     \<lparr>grq = \<lparr>grq_running = 1, grq_tasks = [10, 20, 30], grq_nr_tasks = 3,
             grq_nr_threads = 5, grq_start_running = 0, grq_stop_running = 0\<rparr>,
      etasks = (\<lambda>_. example_etask 0 [] [] 0)
                 (20 := example_etask 0 [] [21, 22] 2,
                  30 := example_etask ETASK_RUNNING [True, True] [31, 32, 33] 3),
      threads = (\<lambda>_. example_thread 0 0 [True, True]),
      cpu_rq = (\<lambda>_. example_rq 0 0 0 False),
      cpu_online_mask = [True, True]\<rparr>"

text \<open>
  A host with one process: the group leader is thread 1, its threads are 1 and 2, its
  pid is 100, the caller is thread 2. The policy switch fails with \<open>-EINVAL\<close> on the
  thread \<open>bad\<close> and succeeds on any other thread; the kernel state is the list of the
  switches done.
\<close>

definition example_host :: "nat \<Rightarrow> (nat \<times> policy) list host" where
  "example_host bad =
     \<lparr>host_current = 2,
      find_task_by_vpid = (\<lambda>pid. if pid = 100 then Some 1 else None),
      host_group_leader = (\<lambda>t. 1),
      for_each_thread = (\<lambda>t. if t = 1 then [1, 2] else []),
      sched_setscheduler_nocheck =
        (\<lambda>t pol prio k. if t = bad then (- 22, k) else (0, k @ [(t, pol)]))\<rparr>"

text \<open>
  Machines of two CPUs with one energy task at address 10. In \<open>distribute_example\<close> the
  threads 5 and 6 are queued on CPU 0, CPU 1 is empty, and the threads 3 and 4, allowed
  on both CPUs and present on CPU 0, are not yet assigned. In \<open>affinity_example\<close> thread 7
  is queued on CPU 1 and thread 3, present on the empty CPU 0, is allowed on CPU 1 only.
  In \<open>empty_domain_example\<close> the task is not running, its domain is cleared, and its
  thread 3 is present on CPU 0.
\<close>

definition two_cpu_state :: "energy_task \<Rightarrow> (nat \<Rightarrow> thread) \<Rightarrow> rq \<Rightarrow> rq \<Rightarrow> sys" where
  "two_cpu_state et ths r0 r1 =
     \<lparr>grq = \<lparr>grq_running = 1, grq_tasks = [10], grq_nr_tasks = 1,
             grq_nr_threads = et_nr_runnable et, grq_start_running = 0,
             grq_stop_running = 0\<rparr>,
      etasks = (\<lambda>_. et), threads = ths, cpu_rq = (\<lambda>_. r1)(0 := r0),
      cpu_online_mask = [True, True]\<rparr>"

definition distribute_example :: sys where
  "distribute_example =
     two_cpu_state (example_etask ETASK_RUNNING [True, True] [3, 4, 5, 6] 4)
       ((\<lambda>_. example_thread 1 0 [True, True])
          (5 := example_thread 3 0 [True, True], 6 := example_thread 3 0 [True, True]))
       ((example_rq 4 0 4 False)\<lparr>en_runnable := [6, 5], en_nr_runnable := 2\<rparr>)
       (example_rq 0 0 0 False)"

definition affinity_example :: sys where
  "affinity_example =
     two_cpu_state (example_etask ETASK_RUNNING [True, True] [3, 7] 2)
       ((\<lambda>_. example_thread 1 0 [False, True])(7 := example_thread 3 1 [True, True]))
       (example_rq 1 0 1 False)
       ((example_rq 1 0 1 False)\<lparr>en_runnable := [7], en_nr_runnable := 1\<rparr>)"

definition empty_domain_example :: sys where
  "empty_domain_example =
     two_cpu_state (example_etask 0 [False, False] [3] 1)
       (\<lambda>_. example_thread 1 0 [True, True])
       (example_rq 1 0 1 False)
       (example_rq 0 0 0 False)"

section \<open>Properties\<close>

subsection \<open>Wrap-aware counter difference\<close>

lemma unat_U32_MAX: "unat U32_MAX = 4294967295"
  by (simp add: U32_MAX_def)

lemma unat_U32_MAX_minus: "unat (U32_MAX - x) = 4294967295 - unat x"
proof -
  have "unat x < 4294967296"
    using unsigned_less [of x, where 'a = nat] by simp
  then have "x \<le> U32_MAX"
    by (simp add: word_le_nat_alt U32_MAX_def)
  then have "unat (U32_MAX - x) = unat U32_MAX - unat x"
    by (rule unat_sub)
  then show ?thesis by (simp add: unat_U32_MAX)
qed

lemma unat_diff_wa_wrapped:
  assumes "first < second"
  shows "unat (uu_diff_wa first second) = (4294967295 - unat second) + unat first"
proof -
  have lt: "unat first < unat second"
    using assms by (simp add: word_less_nat_alt)
  have bound: "unat second < 4294967296"
    using unsigned_less [of second, where 'a = nat] by simp
  have "unat ((U32_MAX - second) + first) =
          (unat (U32_MAX - second) + unat first) mod 4294967296"
    by (simp add: unat_word_ariths)
  also have "\<dots> = ((4294967295 - unat second) + unat first) mod 4294967296"
    by (simp add: unat_U32_MAX_minus)
  also have "\<dots> = (4294967295 - unat second) + unat first"
    using lt bound by simp
  finally show ?thesis
    using assms by (simp add: uu_diff_wa_def)
qed

text \<open>
  Claim C4. When the current reading is smaller than the previous one (the counter
  wrapped), \<open>__diff_wa(current, previous)\<close> is \<open>(U32_MAX - previous) + current\<close>, and
  this sum does not wrap around: read as a natural number it is
  \<open>(2^32 - 1 - previous) + current\<close>, so it is not negative. Otherwise the result is the
  plain difference \<open>current - previous\<close>, which does not wrap either.
\<close>

theorem diff_wa_wrap_safe:
  "(current < previous \<longrightarrow>
      uu_diff_wa current previous = (U32_MAX - previous) + current \<and>
      unat (uu_diff_wa current previous) = (4294967295 - unat previous) + unat current \<and>
      0 \<le> uint (uu_diff_wa current previous)) \<and>
   (\<not> current < previous \<longrightarrow>
      uu_diff_wa current previous = current - previous \<and>
      unat (uu_diff_wa current previous) = unat current - unat previous \<and>
      unat previous \<le> unat current)"
proof (intro conjI impI)
  assume w: "current < previous"
  show "uu_diff_wa current previous = (U32_MAX - previous) + current"
    using w by (simp add: uu_diff_wa_def)
  show "unat (uu_diff_wa current previous) = (4294967295 - unat previous) + unat current"
    using w by (rule unat_diff_wa_wrapped)
  show "0 \<le> uint (uu_diff_wa current previous)"
    by simp
next
  assume n: "\<not> current < previous"
  then have le: "previous \<le> current" by simp
  show "uu_diff_wa current previous = current - previous"
    using n by (simp add: uu_diff_wa_def)
  show "unat (uu_diff_wa current previous) = unat current - unat previous"
    using n le by (simp add: uu_diff_wa_def unat_sub)
  show "unat previous \<le> unat current"
    using le by (simp add: word_le_nat_alt)
qed

theorem diff_wa_wrap_safe_witness:
  "(5 :: u32) < 0xfffffff0 \<and> uu_diff_wa 5 0xfffffff0 = (U32_MAX - 0xfffffff0) + 5 \<and>
   unat (uu_diff_wa 5 0xfffffff0) = 20 \<and>
   \<not> (7 :: u32) < 3 \<and> uu_diff_wa 7 3 = 4"
  using diff_wa_wrap_safe [of 5 "0xfffffff0"] diff_wa_wrap_safe [of 7 3]
  by (simp add: U32_MAX_def)

subsection \<open>Energy accounting of one counter\<close>

lemma unat_u32_bound: "unat (x :: u32) < 4294967296"
  using unsigned_less [of x, where 'a = nat] by simp

lemma unat_ucast_u32: "unat (ucast (x :: u32) :: u64) = unat x"
proof -
  have "unat x < 2 ^ 64" using unat_u32_bound [of x] by simp
  then show ?thesis by (simp add: unsigned_ucast_eq take_bit_nat_eq_self)
qed

lemma unat_loop_consumption:
  "unat (loop_consumption gri dur avg) =
     ((unat avg * unat dur) mod 2 ^ 32) div unat (update_interval gri)"
  by (simp add: loop_consumption_def unat_div unat_word_ariths)

lemma unat_final_consumption:
  "unat (final_consumption lc c) = unat c - unat lc"
proof (cases "lc > c")
  case True
  then show ?thesis by (simp add: final_consumption_def word_less_nat_alt)
next
  case False
  then have "lc \<le> c" by simp
  then show ?thesis using False by (simp add: final_consumption_def unat_sub)
qed

text \<open>
  Claim C3. \<open>__update_rapl_counter\<close> takes as self-consumption the calibrated loop
  energy times the elapsed duration, divided by the calibrated interval and rounded
  down, in unsigned 32-bit arithmetic: the product is taken modulo \<open>2 ^ 32\<close>, and is
  the product of the two numbers when that is below \<open>2 ^ 32\<close>. The net amount is the
  raw delta minus the self-consumption, and 0 when the self-consumption exceeds the raw
  delta: it is never negative. The accumulated value grows by the net amount times the
  unit constant, a 32-bit product added to the 64-bit value; with an interval of 0 the
  division traps and nothing is returned. With a calibrated interval of 1000 us, a
  loop energy of 5 units, an elapsed duration of 2500 us and a raw delta of 100 units,
  the self-consumption is \<open>(5 * 2500) / 1000 = 12\<close> and the net 88 units, times the
  unit constant, are added. Whenever the computed self-consumption exceeds the raw
  delta, the net amount is 0 and the accumulated value is unchanged.
\<close>

theorem update_rapl_counter_net:
  "loop_consumption gri dur avg = (avg * dur) div update_interval gri \<and>
   unat (loop_consumption gri dur avg) =
     ((unat avg * unat dur) mod 2 ^ 32) div unat (update_interval gri) \<and>
   (unat avg * unat dur < 2 ^ 32 \<longrightarrow>
      unat (loop_consumption gri dur avg) =
        (unat avg * unat dur) div unat (update_interval gri)) \<and>
   final_consumption (loop_consumption gri dur avg) consumption =
     (if consumption < (avg * dur) div update_interval gri then 0
      else consumption - (avg * dur) div update_interval gri) \<and>
   unat (final_consumption (loop_consumption gri dur avg) consumption) =
     unat consumption - unat (loop_consumption gri dur avg) \<and>
   (update_interval gri = 0 \<longrightarrow>
      uu_update_rapl_counter gri val consumption dur avg = None) \<and>
   (update_interval gri \<noteq> 0 \<longrightarrow>
      uu_update_rapl_counter gri val consumption dur avg =
        Some (val + ucast (final_consumption (loop_consumption gri dur avg) consumption
                             * unit gri)) \<and>
      unat (val + ucast (final_consumption (loop_consumption gri dur avg) consumption
                           * unit gri)) =
        (unat val +
         ((unat consumption - unat (loop_consumption gri dur avg)) * unat (unit gri))
           mod 2 ^ 32) mod 2 ^ 64) \<and>
   (update_interval gri = 1000 \<longrightarrow>
      loop_consumption gri 2500 5 = 12 \<and>
      final_consumption (loop_consumption gri 2500 5) 100 = 88 \<and>
      uu_update_rapl_counter gri val 100 2500 5 = Some (val + ucast (88 * unit gri))) \<and>
   (update_interval gri \<noteq> 0 \<and> consumption < loop_consumption gri dur avg \<longrightarrow>
      final_consumption (loop_consumption gri dur avg) consumption = 0 \<and>
      uu_update_rapl_counter gri val consumption dur avg = Some val)"
proof (intro conjI impI)
  show "loop_consumption gri dur avg = (avg * dur) div update_interval gri"
    by (simp add: loop_consumption_def)
next
  show "unat (loop_consumption gri dur avg) =
          ((unat avg * unat dur) mod 2 ^ 32) div unat (update_interval gri)"
    by (rule unat_loop_consumption)
next
  assume "unat avg * unat dur < 2 ^ 32"
  then show "unat (loop_consumption gri dur avg) =
          (unat avg * unat dur) div unat (update_interval gri)"
    by (simp add: unat_loop_consumption)
next
  show "final_consumption (loop_consumption gri dur avg) consumption =
     (if consumption < (avg * dur) div update_interval gri then 0
      else consumption - (avg * dur) div update_interval gri)"
    by (simp add: final_consumption_def loop_consumption_def)
next
  show "unat (final_consumption (loop_consumption gri dur avg) consumption) =
          unat consumption - unat (loop_consumption gri dur avg)"
    by (rule unat_final_consumption)
next
  assume "update_interval gri = 0"
  then show "uu_update_rapl_counter gri val consumption dur avg = None"
    by (simp add: uu_update_rapl_counter_def)
next
  assume "update_interval gri \<noteq> 0"
  then show "uu_update_rapl_counter gri val consumption dur avg =
        Some (val + ucast (final_consumption (loop_consumption gri dur avg) consumption
                             * unit gri))"
    by (simp add: uu_update_rapl_counter_def)
next
  show "unat (val + ucast (final_consumption (loop_consumption gri dur avg) consumption
                           * unit gri)) =
        (unat val +
         ((unat consumption - unat (loop_consumption gri dur avg)) * unat (unit gri))
           mod 2 ^ 32) mod 2 ^ 64"
    by (simp add: unat_word_ariths unat_ucast_u32 unat_final_consumption)
next
  assume i: "update_interval gri = 1000"
  show l: "loop_consumption gri 2500 5 = 12"
    using i by (simp add: loop_consumption_def)
  show f: "final_consumption (loop_consumption gri 2500 5) 100 = 88"
    by (simp add: l final_consumption_def)
  show "uu_update_rapl_counter gri val 100 2500 5 = Some (val + ucast (88 * unit gri))"
    using i by (simp add: uu_update_rapl_counter_def f)
next
  assume a: "update_interval gri \<noteq> 0 \<and> consumption < loop_consumption gri dur avg"
  show z: "final_consumption (loop_consumption gri dur avg) consumption = 0"
    using a by (simp add: final_consumption_def)
  show "uu_update_rapl_counter gri val consumption dur avg = Some val"
    using a by (simp add: uu_update_rapl_counter_def z)
qed

theorem update_rapl_counter_net_witness:
  "unat (5 :: u32) * unat (2500 :: u32) < 2 ^ 32 \<and>
   update_interval (example_rapl_info 1000) = 1000 \<and>
   loop_consumption (example_rapl_info 1000) 2500 5 = 12 \<and>
   uu_update_rapl_counter (example_rapl_info 1000) 7 100 2500 5 = Some (7 + 88 * 61) \<and>
   (20 :: u32) < loop_consumption (example_rapl_info 1000) 5000 5 \<and>
   uu_update_rapl_counter (example_rapl_info 1000) 7 20 5000 5 = Some 7 \<and>
   loop_consumption (example_rapl_info 1000) 4000 7 = 28 \<and>
   uu_update_rapl_counter (example_rapl_info 1000) 7 1000 4000 7 = Some (7 + 972 * 61) \<and>
   loop_consumption (example_rapl_info 1000) 1000000000 5 = 705032 \<and>
   uu_update_rapl_counter (example_rapl_info 1000) 7 1000000 1000000000 5 =
     Some (7 + 294968 * 61) \<and>
   update_interval (example_rapl_info 0) = 0 \<and>
   uu_update_rapl_counter (example_rapl_info 0) 7 100 2500 5 = None"
  using update_rapl_counter_net
          [where gri = "example_rapl_info 1000" and val = 7 and consumption = 100
             and dur = 2500 and avg = 5]
        update_rapl_counter_net
          [where gri = "example_rapl_info 1000" and val = 7 and consumption = 20
             and dur = 5000 and avg = 5]
        update_rapl_counter_net
          [where gri = "example_rapl_info 1000" and val = 7 and consumption = 1000
             and dur = 4000 and avg = 7]
        update_rapl_counter_net
          [where gri = "example_rapl_info 1000" and val = 7 and consumption = 1000000
             and dur = 1000000000 and avg = 5]
        update_rapl_counter_net
          [where gri = "example_rapl_info 0" and val = 7 and consumption = 100
             and dur = 2500 and avg = 5]
  by (simp add: loop_consumption_def final_consumption_def example_rapl_info_def)

subsection \<open>Scheduling slices\<close>

lemma unat_slice: "unat (ucast (x :: u32) * THREAD_SCHED_SLICE) = 10000000 * unat x"
proof -
  have b: "unat x < 4294967296" by (rule unat_u32_bound)
  have "unat (ucast x * (10000000 :: u64)) = (unat (ucast x :: u64) * 10000000) mod 2 ^ 64"
    by (simp add: unat_word_ariths)
  also have "\<dots> = (unat x * 10000000) mod 2 ^ 64" by (simp add: unat_ucast_u32)
  also have "\<dots> = unat x * 10000000" using b by simp
  finally show ?thesis by (simp add: THREAD_SCHED_SLICE_def)
qed

text \<open>
  Claim C8. The class slice is the quantum of 10 ms (10000000 ns) times the global
  thread count; the slice of an energy task is the quantum times its count of runnable
  threads, and 0 for the \<open>NULL\<close> task; the local slice of a CPU is the slice of its
  current energy task divided by the count of threads queued on that CPU
  (\<open>en.nr_runnable\<close>), and the task's slice itself when that count is 0. None of the
  products wraps around.
\<close>

theorem sched_slice_formulas:
  "sched_slice_class s = ucast (grq_nr_threads (grq s)) * THREAD_SCHED_SLICE \<and>
   unat (sched_slice_class s) = 10000000 * unat (grq_nr_threads (grq s)) \<and>
   sched_slice_energy s None = 0 \<and>
   sched_slice_energy s (Some e) = ucast (et_nr_runnable (etasks s e)) * THREAD_SCHED_SLICE \<and>
   unat (sched_slice_energy s (Some e)) = 10000000 * unat (et_nr_runnable (etasks s e)) \<and>
   unat (sched_slice_local s c) =
     (if unat (en_nr_runnable (cpu_rq s c)) = 0
      then unat (sched_slice_energy s (en_curr_e_task (cpu_rq s c)))
      else unat (sched_slice_energy s (en_curr_e_task (cpu_rq s c)))
             div unat (en_nr_runnable (cpu_rq s c)))"
proof (intro conjI)
  show "sched_slice_class s = ucast (grq_nr_threads (grq s)) * THREAD_SCHED_SLICE"
    by (simp add: sched_slice_class_def)
  show "unat (sched_slice_class s) = 10000000 * unat (grq_nr_threads (grq s))"
    by (simp add: sched_slice_class_def unat_slice)
  show "sched_slice_energy s None = 0"
    by (simp add: sched_slice_energy_def)
  show "sched_slice_energy s (Some e) =
          ucast (et_nr_runnable (etasks s e)) * THREAD_SCHED_SLICE"
    by (simp add: sched_slice_energy_def)
  show "unat (sched_slice_energy s (Some e)) = 10000000 * unat (et_nr_runnable (etasks s e))"
    by (simp add: sched_slice_energy_def unat_slice)
  show "unat (sched_slice_local s c) =
     (if unat (en_nr_runnable (cpu_rq s c)) = 0
      then unat (sched_slice_energy s (en_curr_e_task (cpu_rq s c)))
      else unat (sched_slice_energy s (en_curr_e_task (cpu_rq s c)))
             div unat (en_nr_runnable (cpu_rq s c)))"
    by (simp add: sched_slice_local_def unat_div unat_ucast_u32 unat_eq_zero)
qed

subsection \<open>The decision to enter the class\<close>

lemma host_nr_running_enter_example:
  "host_nr_running (enter_example r0 r1 n stop) =
     ucast (nr_running r0) + ucast (nr_running r1)"
  by (simp add: host_nr_running_def enter_example_def for_each_cpu_def)

text \<open>
  Claim C7, as stated, fails: on a machine of two CPUs where CPU 0 carries one assigned
  thread and nothing else (its visible load equals its assignment count) and CPU 1
  carries four unmanaged threads, with the class stopped at the present clock value,
  the decision for CPU 0 as the claim words it is to enter, and the code declines.
\<close>

theorem should_switch_to_energy_counterexample:
  "should_switch_to_energy_spec
     (enter_example (example_rq 1 100 1 False) (example_rq 4 100 0 False) 1 100) 0 \<and>
   \<not> should_switch_to_energy
     (enter_example (example_rq 1 100 1 False) (example_rq 4 100 0 False) 1 100) 0"
  by (simp add: should_switch_to_energy_spec_def should_switch_to_energy_def
      host_nr_running_enter_example sched_slice_other_def THREAD_SCHED_SLICE_def)
    (simp add: enter_example_def example_rq_def)

lemma unat_sum_list_ucast:
  fixes f :: "nat \<Rightarrow> u32"
  shows "unat (sum_list (map (\<lambda>c. ucast (f c)) xs) :: u64) =
           sum_list (map (\<lambda>c. unat (f c)) xs) mod 2 ^ 64"
proof (induction xs)
  case Nil
  then show ?case by simp
next
  case (Cons x xs)
  let ?r = "sum_list (map (\<lambda>c. ucast (f c)) xs) :: u64"
  have "unat (ucast (f x) + ?r) = (unat (ucast (f x) :: u64) + unat ?r) mod 2 ^ 64"
    by (simp add: unat_word_ariths)
  also have "\<dots> = (unat (f x) + sum_list (map (\<lambda>c. unat (f c)) xs) mod 2 ^ 64) mod 2 ^ 64"
    by (simp only: Cons.IH unat_ucast_u32)
  also have "\<dots> = (unat (f x) + sum_list (map (\<lambda>c. unat (f c)) xs)) mod 2 ^ 64"
    by (rule mod_add_right_eq)
  finally show ?case by simp
qed

lemma sum_list_split_le:
  fixes f g :: "nat \<Rightarrow> u32"
  assumes "list_all (\<lambda>c. g c \<le> f c) xs"
  shows "sum_list (map (\<lambda>c. unat (f c)) xs) =
           sum_list (map (\<lambda>c. unat (g c)) xs) +
           sum_list (map (\<lambda>c. unat (f c) - unat (g c)) xs)"
  using assms
proof (induction xs)
  case Nil
  then show ?case by simp
next
  case (Cons x xs)
  then have "unat (g x) \<le> unat (f x)" by (simp add: word_le_nat_alt)
  then show ?case using Cons by simp
qed

lemma unat_host_nr_running:
  assumes h: "host_counts_managed s" and b: "unmanaged_running s < 2 ^ 32"
  shows "unat (host_nr_running s) = unat (grq_nr_threads (grq s)) + unmanaged_running s"
proof -
  let ?xs = "for_each_cpu (cpu_online_mask s)"
  have "sum_list (map (\<lambda>c. unat (nr_running (cpu_rq s c))) ?xs) =
          managed_counted s + unmanaged_running s"
    unfolding managed_counted_def unmanaged_running_def
    by (rule sum_list_split_le) (use h in \<open>simp add: host_counts_managed_def\<close>)
  then have e: "sum_list (map (\<lambda>c. unat (nr_running (cpu_rq s c))) ?xs) =
          unat (grq_nr_threads (grq s)) + unmanaged_running s"
    using h by (simp add: host_counts_managed_def)
  have "unat (grq_nr_threads (grq s)) < 4294967296" by (rule unat_u32_bound)
  then have "unat (grq_nr_threads (grq s)) + unmanaged_running s < 2 ^ 64"
    using b by simp
  then show ?thesis
    unfolding host_nr_running_def by (simp only: unat_sum_list_ucast e mod_less)
qed

lemma unat_times_quantum: "unat ((x :: u64) * 10000000) = (unat x * 10000000) mod 2 ^ 64"
  by (simp add: unat_word_ariths)

lemma unat_sched_slice_other:
  assumes h: "host_counts_managed s" and b: "unmanaged_running s < 2 ^ 32"
  shows "unat (sched_slice_other s) = unmanaged_running s * 10000000"
proof -
  have u: "unat (host_nr_running s) = unat (grq_nr_threads (grq s)) + unmanaged_running s"
    using h b by (rule unat_host_nr_running)
  have "unat (ucast (grq_nr_threads (grq s)) :: u64) \<le> unat (host_nr_running s)"
    by (simp add: u unat_ucast_u32)
  then have "(ucast (grq_nr_threads (grq s)) :: u64) \<le> host_nr_running s"
    by (simp add: word_le_nat_alt)
  then have "unat (host_nr_running s - ucast (grq_nr_threads (grq s))) =
               unat (host_nr_running s) - unat (ucast (grq_nr_threads (grq s)) :: u64)"
    by (rule unat_sub)
  then have d: "unat (host_nr_running s - ucast (grq_nr_threads (grq s))) = unmanaged_running s"
    by (simp add: u unat_ucast_u32)
  have "unat ((host_nr_running s - ucast (grq_nr_threads (grq s))) * (10000000 :: u64)) =
          (unmanaged_running s * 10000000) mod 2 ^ 64"
    by (simp only: unat_times_quantum d)
  also have "\<dots> = unmanaged_running s * 10000000" using b by simp
  finally show ?thesis by (simp add: sched_slice_other_def THREAD_SCHED_SLICE_def)
qed

lemma host_eq_threads_iff:
  assumes h: "host_counts_managed s" and b: "unmanaged_running s < 2 ^ 32"
  shows "host_nr_running s = ucast (grq_nr_threads (grq s)) \<longleftrightarrow> unmanaged_running s = 0"
proof -
  have u: "unat (host_nr_running s) = unat (grq_nr_threads (grq s)) + unmanaged_running s"
    using h b by (rule unat_host_nr_running)
  have "host_nr_running s = ucast (grq_nr_threads (grq s)) \<longleftrightarrow>
          unat (host_nr_running s) = unat (ucast (grq_nr_threads (grq s)) :: u64)"
    by (simp add: word_unat_eq_iff)
  then show ?thesis by (simp add: u unat_ucast_u32)
qed

text \<open>
  Claim C7, amended. \<open>should_switch_to_energy\<close> evaluates, in order: if the global
  thread count is 0 it returns false; if all runnable work on the host is managed
  threads it returns true; if the host's count of runnable work, that of the whole
  machine and not the load of this CPU, equals this CPU's own assigned count it returns
  true; if the host has zero runnable work it returns true; otherwise it returns true
  exactly when the idle time since control was last released exceeds the proportional
  slice for unmanaged work, that is (host runnable count - global thread count) times
  the quantum of 10 ms per thread. The second and the last test are stated for the
  states in which the host's count includes every managed thread (and the unmanaged
  threads are fewer than \<open>2 ^ 32\<close>); the states in which managed threads are assigned
  to blocked CPUs are left out.
\<close>

theorem should_switch_to_energy_order:
  "(grq_nr_threads (grq s) = 0 \<longrightarrow> \<not> should_switch_to_energy s c) \<and>
   (grq_nr_threads (grq s) \<noteq> 0 \<and> host_counts_managed s \<and> unmanaged_running s = 0 \<longrightarrow>
      should_switch_to_energy s c) \<and>
   (grq_nr_threads (grq s) \<noteq> 0 \<and>
    host_nr_running s = ucast (en_nr_assigned (cpu_rq s c)) \<longrightarrow>
      should_switch_to_energy s c) \<and>
   (grq_nr_threads (grq s) \<noteq> 0 \<and> host_nr_running s = 0 \<longrightarrow>
      should_switch_to_energy s c) \<and>
   (grq_nr_threads (grq s) \<noteq> 0 \<and> host_counts_managed s \<and>
    0 < unmanaged_running s \<and> unmanaged_running s < 2 ^ 32 \<and>
    host_nr_running s \<noteq> ucast (en_nr_assigned (cpu_rq s c)) \<longrightarrow>
      unat (host_nr_running s) - unat (grq_nr_threads (grq s)) = unmanaged_running s \<and>
      should_switch_to_energy s c =
        ((unat (host_nr_running s) - unat (grq_nr_threads (grq s))) * 10000000 <
           unat (clock (cpu_rq s c)) - unat (grq_stop_running (grq s))))"
proof (intro conjI impI)
  show "\<not> should_switch_to_energy s c" if "grq_nr_threads (grq s) = 0"
    using that by (simp add: should_switch_to_energy_def)
  show "should_switch_to_energy s c"
    if a: "grq_nr_threads (grq s) \<noteq> 0 \<and> host_counts_managed s \<and> unmanaged_running s = 0"
  proof -
    have "host_nr_running s = ucast (grq_nr_threads (grq s))"
      using a host_eq_threads_iff [of s] by simp
    then show ?thesis using a by (simp add: should_switch_to_energy_def)
  qed
  show "should_switch_to_energy s c"
    if "grq_nr_threads (grq s) \<noteq> 0 \<and>
        host_nr_running s = ucast (en_nr_assigned (cpu_rq s c))"
    using that by (simp add: should_switch_to_energy_def)
  show "should_switch_to_energy s c"
    if "grq_nr_threads (grq s) \<noteq> 0 \<and> host_nr_running s = 0"
    using that by (simp add: should_switch_to_energy_def)
next
  assume a: "grq_nr_threads (grq s) \<noteq> 0 \<and> host_counts_managed s \<and>
    0 < unmanaged_running s \<and> unmanaged_running s < 2 ^ 32 \<and>
    host_nr_running s \<noteq> ucast (en_nr_assigned (cpu_rq s c))"
  have u: "unat (host_nr_running s) = unat (grq_nr_threads (grq s)) + unmanaged_running s"
    using a by (simp add: unat_host_nr_running)
  show d: "unat (host_nr_running s) - unat (grq_nr_threads (grq s)) = unmanaged_running s"
    by (simp add: u)
  have sl: "unat (sched_slice_other s) = unmanaged_running s * 10000000"
    using a by (simp add: unat_sched_slice_other)
  have n2: "host_nr_running s \<noteq> ucast (grq_nr_threads (grq s))"
    using a host_eq_threads_iff [of s] by simp
  have "unat (host_nr_running s) \<noteq> 0" using a u by simp
  then have n4: "host_nr_running s \<noteq> 0" by (simp add: unat_eq_zero)
  show "should_switch_to_energy s c =
        ((unat (host_nr_running s) - unat (grq_nr_threads (grq s))) * 10000000 <
           unat (clock (cpu_rq s c)) - unat (grq_stop_running (grq s)))"
  proof (cases "clock (cpu_rq s c) \<le> grq_stop_running (grq s)")
    case True
    then have "unat (clock (cpu_rq s c)) - unat (grq_stop_running (grq s)) = 0"
      by (simp add: word_le_nat_alt)
    then show ?thesis
      using a n2 n4 True by (simp add: should_switch_to_energy_def)
  next
    case False
    then have "grq_stop_running (grq s) \<le> clock (cpu_rq s c)" by simp
    then have "unat (clock (cpu_rq s c) - grq_stop_running (grq s)) =
                 unat (clock (cpu_rq s c)) - unat (grq_stop_running (grq s))"
      by (rule unat_sub)
    then show ?thesis
      using a n2 n4 False by (simp add: should_switch_to_energy_def word_less_nat_alt sl d)
  qed
qed

lemma enter_example_simps:
  "grq_nr_threads (grq (enter_example r0 r1 n stop)) = n"
  "grq_stop_running (grq (enter_example r0 r1 n stop)) = stop"
  "cpu_rq (enter_example r0 r1 n stop) 0 = r0"
  by (simp_all add: enter_example_def)

lemma example_rq_simps:
  "nr_running (example_rq n clk a b) = n"
  "clock (example_rq n clk a b) = clk"
  "en_nr_assigned (example_rq n clk a b) = a"
  "en_blocked (example_rq n clk a b) = b"
  "en_nr_runnable (example_rq n clk a b) = 0"
  by (simp_all add: example_rq_def)

lemma counts_enter_example:
  "unmanaged_running (enter_example r0 r1 n stop) =
     (unat (nr_running r0) - unat (en_contribution r0)) +
     (unat (nr_running r1) - unat (en_contribution r1))"
  "host_counts_managed (enter_example r0 r1 n stop) \<longleftrightarrow>
     en_contribution r0 \<le> nr_running r0 \<and> en_contribution r1 \<le> nr_running r1 \<and>
     unat (en_contribution r0) + unat (en_contribution r1) = unat n"
  by (simp_all add: unmanaged_running_def host_counts_managed_def managed_counted_def
      enter_example_def for_each_cpu_def)

theorem should_switch_to_energy_order_witness:
  "grq_nr_threads (grq (enter_example (example_rq 0 0 0 False) (example_rq 0 0 0 False) 0 0)) = 0 \<and>
   \<not> should_switch_to_energy
        (enter_example (example_rq 0 0 0 False) (example_rq 0 0 0 False) 0 0) 0 \<and>
   host_counts_managed (enter_example (example_rq 2 0 2 False) (example_rq 0 0 0 False) 2 0) \<and>
   unmanaged_running (enter_example (example_rq 2 0 2 False) (example_rq 0 0 0 False) 2 0) = 0 \<and>
   should_switch_to_energy
     (enter_example (example_rq 2 0 2 False) (example_rq 0 0 0 False) 2 0) 0 \<and>
   host_nr_running (enter_example (example_rq 3 0 3 False) (example_rq 0 0 2 True) 5 0) =
     ucast (en_nr_assigned
       (cpu_rq (enter_example (example_rq 3 0 3 False) (example_rq 0 0 2 True) 5 0) 0)) \<and>
   should_switch_to_energy
     (enter_example (example_rq 3 0 3 False) (example_rq 0 0 2 True) 5 0) 0 \<and>
   host_nr_running (enter_example (example_rq 0 0 1 True) (example_rq 0 0 1 True) 2 0) = 0 \<and>
   should_switch_to_energy
     (enter_example (example_rq 0 0 1 True) (example_rq 0 0 1 True) 2 0) 0 \<and>
   host_counts_managed
     (enter_example (example_rq 1 100 1 False) (example_rq 4 100 0 False) 1 100) \<and>
   unmanaged_running
     (enter_example (example_rq 1 100 1 False) (example_rq 4 100 0 False) 1 100) = 4 \<and>
   \<not> should_switch_to_energy
        (enter_example (example_rq 1 100 1 False) (example_rq 4 100 0 False) 1 100) 0 \<and>
   should_switch_to_energy
     (enter_example (example_rq 1 40000101 1 False) (example_rq 4 0 0 False) 1 100) 0"
  using should_switch_to_energy_order
          [of "enter_example (example_rq 0 0 0 False) (example_rq 0 0 0 False) 0 0" 0]
        should_switch_to_energy_order
          [of "enter_example (example_rq 2 0 2 False) (example_rq 0 0 0 False) 2 0" 0]
        should_switch_to_energy_order
          [of "enter_example (example_rq 3 0 3 False) (example_rq 0 0 2 True) 5 0" 0]
        should_switch_to_energy_order
          [of "enter_example (example_rq 0 0 1 True) (example_rq 0 0 1 True) 2 0" 0]
        should_switch_to_energy_order
          [of "enter_example (example_rq 1 100 1 False) (example_rq 4 100 0 False) 1 100" 0]
        should_switch_to_energy_order
          [of "enter_example (example_rq 1 40000101 1 False) (example_rq 4 0 0 False) 1 100" 0]
  by (simp add: host_nr_running_enter_example enter_example_simps example_rq_simps
      counts_enter_example en_contribution_def)

subsection \<open>Blocked and unblocked CPUs\<close>

lemma cpu_rq_upd_rq: "cpu_rq (upd_rq c f s) d = (if d = c then f (cpu_rq s c) else cpu_rq s d)"
  by (simp add: upd_rq_def)

lemma cpu_rq_fold_upd_rq:
  "distinct cs \<Longrightarrow>
   cpu_rq (fold (\<lambda>cpu s. upd_rq cpu f s) cs s) c =
     (if c \<in> set cs then f (cpu_rq s c) else cpu_rq s c)"
proof (induction cs arbitrary: s)
  case Nil
  then show ?case by simp
next
  case (Cons a cs)
  then show ?case by (auto simp: cpu_rq_upd_rq)
qed

lemma distinct_for_each_cpu: "distinct (for_each_cpu m)"
  by (simp add: for_each_cpu_def)

lemma set_for_each_cpu: "c \<in> set (for_each_cpu m) \<longleftrightarrow> cpumask_test_cpu c m"
  by (auto simp: for_each_cpu_def cpumask_test_cpu_def)

lemma cpu_rq_acquire_cpus:
  "cpu_rq (acquire_cpus domain s) c =
     (if cpumask_test_cpu c domain \<and> en_blocked (cpu_rq s c)
      then uu_acquire_cpu (cpu_rq s c) else cpu_rq s c)"
proof -
  have body: "(\<lambda>cpu s. if en_blocked (cpu_rq s cpu) then upd_rq cpu uu_acquire_cpu s else s) =
        (\<lambda>cpu s. upd_rq cpu (\<lambda>r. if en_blocked r then uu_acquire_cpu r else r) s)"
    by (intro ext) (simp add: upd_rq_def)
  show ?thesis
    unfolding acquire_cpus_def body
    by (simp add: cpu_rq_fold_upd_rq distinct_for_each_cpu set_for_each_cpu)
qed

lemma cpu_rq_release_cpus:
  "cpu_rq (release_cpus domain s) c =
     (if cpumask_test_cpu c domain \<and> \<not> en_blocked (cpu_rq s c) \<and>
         nr_running (cpu_rq s c) = en_nr_assigned (cpu_rq s c)
      then uu_release_cpu (cpu_rq s c) else cpu_rq s c)"
proof -
  have body: "(\<lambda>cpu s. if \<not> en_blocked (cpu_rq s cpu) \<and>
                nr_running (cpu_rq s cpu) = en_nr_assigned (cpu_rq s cpu)
             then upd_rq cpu uu_release_cpu s else s) =
        (\<lambda>cpu s. upd_rq cpu (\<lambda>r. if \<not> en_blocked r \<and> nr_running r = en_nr_assigned r
                                  then uu_release_cpu r else r) s)"
    by (intro ext) (simp add: upd_rq_def)
  show ?thesis
    unfolding release_cpus_def body
    by (simp add: cpu_rq_fold_upd_rq distinct_for_each_cpu set_for_each_cpu)
qed

lemma cpu_rq_check_cpus:
  "cpu_rq (check_cpus domain s) c =
     (if cpumask_test_cpu c domain \<and> en_blocked (cpu_rq s c) \<and> nr_running (cpu_rq s c) > 0
      then uu_acquire_cpu (cpu_rq s c)
      else if cpumask_test_cpu c domain \<and> \<not> en_blocked (cpu_rq s c) \<and>
              nr_running (cpu_rq s c) = en_nr_assigned (cpu_rq s c)
      then uu_release_cpu (cpu_rq s c) else cpu_rq s c)"
proof -
  have body: "(\<lambda>cpu s.
             if en_blocked (cpu_rq s cpu) \<and> nr_running (cpu_rq s cpu) > 0
             then upd_rq cpu uu_acquire_cpu s
             else if \<not> en_blocked (cpu_rq s cpu) \<and>
                     nr_running (cpu_rq s cpu) = en_nr_assigned (cpu_rq s cpu)
             then upd_rq cpu uu_release_cpu s else s) =
        (\<lambda>cpu s. upd_rq cpu (\<lambda>r. if en_blocked r \<and> nr_running r > 0 then uu_acquire_cpu r
                                  else if \<not> en_blocked r \<and> nr_running r = en_nr_assigned r
                                  then uu_release_cpu r else r) s)"
    by (intro ext) (simp add: upd_rq_def)
  show ?thesis
    unfolding check_cpus_def body
    by (simp add: cpu_rq_fold_upd_rq distinct_for_each_cpu set_for_each_cpu)
qed

lemma release_cpu_fields:
  "en_blocked (uu_release_cpu r)"
  "nr_running (uu_release_cpu r) = nr_running r - en_nr_assigned r"
  "en_nr_assigned (uu_release_cpu r) = en_nr_assigned r"
  by (simp_all add: uu_release_cpu_def sub_nr_running_def)

lemma acquire_cpu_fields:
  "\<not> en_blocked (uu_acquire_cpu r)"
  "nr_running (uu_acquire_cpu r) = nr_running r + en_nr_assigned r"
  "en_nr_assigned (uu_acquire_cpu r) = en_nr_assigned r"
  by (simp_all add: uu_acquire_cpu_def add_nr_running_def)

text \<open>
  Claim C6. After \<open>release_cpus\<close> the run queue of a CPU is its run queue before with
  \<open>__release_cpu\<close> applied when the CPU is in the domain, was unblocked and had a
  visible load equal to its assignment count, and is unchanged otherwise. So a CPU is
  newly blocked only under these three conditions, and a CPU that was unblocked with a
  visible load of its assignment count plus one stays unblocked and unchanged.
\<close>

theorem release_cpus_blocks_only_own_load:
  "cpu_rq (release_cpus domain s) c =
     (if cpumask_test_cpu c domain \<and> \<not> en_blocked (cpu_rq s c) \<and>
         nr_running (cpu_rq s c) = en_nr_assigned (cpu_rq s c)
      then uu_release_cpu (cpu_rq s c) else cpu_rq s c) \<and>
   (en_blocked (cpu_rq (release_cpus domain s) c) \<and> \<not> en_blocked (cpu_rq s c) \<longrightarrow>
      cpumask_test_cpu c domain \<and> nr_running (cpu_rq s c) = en_nr_assigned (cpu_rq s c)) \<and>
   (cpumask_test_cpu c domain \<and> \<not> en_blocked (cpu_rq s c) \<and>
    nr_running (cpu_rq s c) = en_nr_assigned (cpu_rq s c) \<longrightarrow>
      en_blocked (cpu_rq (release_cpus domain s) c) \<and>
      nr_running (cpu_rq (release_cpus domain s) c) = 0) \<and>
   (\<not> en_blocked (cpu_rq s c) \<and>
    nr_running (cpu_rq s c) = en_nr_assigned (cpu_rq s c) + 1 \<longrightarrow>
      \<not> en_blocked (cpu_rq (release_cpus domain s) c) \<and>
      cpu_rq (release_cpus domain s) c = cpu_rq s c)"
  by (auto simp: cpu_rq_release_cpus release_cpu_fields)

lemma cpu_rq_enter_example:
  "cpu_rq (enter_example r0 r1 n stop) c = (if c = 0 then r0 else r1)"
  by (simp add: enter_example_def)

theorem release_cpus_blocks_only_own_load_witness:
  "cpumask_test_cpu 0 [True, True] \<and> cpumask_test_cpu 1 [True, True] \<and>
   en_blocked (cpu_rq (release_cpus [True, True]
     (enter_example (example_rq 2 0 2 False) (example_rq 3 0 2 False) 4 0)) 0) \<and>
   nr_running (cpu_rq (release_cpus [True, True]
     (enter_example (example_rq 2 0 2 False) (example_rq 3 0 2 False) 4 0)) 0) = 0 \<and>
   \<not> en_blocked (cpu_rq (release_cpus [True, True]
     (enter_example (example_rq 2 0 2 False) (example_rq 3 0 2 False) 4 0)) 1) \<and>
   nr_running (cpu_rq (release_cpus [True, True]
     (enter_example (example_rq 2 0 2 False) (example_rq 3 0 2 False) 4 0)) 1) = 3"
  using release_cpus_blocks_only_own_load
          [of "[True, True]" "enter_example (example_rq 2 0 2 False) (example_rq 3 0 2 False) 4 0" 0]
        release_cpus_blocks_only_own_load
          [of "[True, True]" "enter_example (example_rq 2 0 2 False) (example_rq 3 0 2 False) 4 0" 1]
  by (simp add: cpu_rq_enter_example example_rq_simps cpumask_test_cpu_def
      release_cpu_fields)

subsection \<open>The contribution of the class to the visible load\<close>

text \<open>
  Claim C10. Let the visible load of a run queue be some foreign load \<open>k\<close> plus the
  contribution of the class, which is \<open>en.nr_assigned\<close> on an unblocked CPU and 0 on a
  blocked one. Then it is so, with the same \<open>k\<close>, after \<open>__inc_nr_running\<close>, after
  \<open>__dec_nr_running\<close>, after \<open>__acquire_cpu\<close> on a blocked CPU and after
  \<open>__release_cpu\<close> on an unblocked CPU; and the callers \<open>acquire_cpus\<close>,
  \<open>release_cpus\<close> and \<open>check_cpus\<close>, which apply the latter two to blocked and to
  unblocked CPUs only, keep it on every CPU. The arithmetic is that of the 32-bit
  counters.
\<close>

theorem nr_running_contribution_preserved:
  "(nr_running r = k + en_contribution r \<longrightarrow>
      nr_running (uu_inc_nr_running r) = k + en_contribution (uu_inc_nr_running r) \<and>
      en_nr_assigned (uu_inc_nr_running r) = en_nr_assigned r + 1 \<and>
      en_blocked (uu_inc_nr_running r) = en_blocked r) \<and>
   (nr_running r = k + en_contribution r \<longrightarrow>
      nr_running (uu_dec_nr_running r) = k + en_contribution (uu_dec_nr_running r) \<and>
      en_nr_assigned (uu_dec_nr_running r) = en_nr_assigned r - 1 \<and>
      en_blocked (uu_dec_nr_running r) = en_blocked r) \<and>
   (en_blocked r \<and> nr_running r = k + en_contribution r \<longrightarrow>
      nr_running (uu_acquire_cpu r) = k + en_contribution (uu_acquire_cpu r) \<and>
      en_contribution (uu_acquire_cpu r) = en_nr_assigned r \<and>
      \<not> en_blocked (uu_acquire_cpu r)) \<and>
   (\<not> en_blocked r \<and> nr_running r = k + en_contribution r \<longrightarrow>
      nr_running (uu_release_cpu r) = k + en_contribution (uu_release_cpu r) \<and>
      en_contribution (uu_release_cpu r) = 0 \<and>
      en_blocked (uu_release_cpu r)) \<and>
   (nr_running (cpu_rq s c) = k + en_contribution (cpu_rq s c) \<longrightarrow>
      nr_running (cpu_rq (acquire_cpus domain s) c) =
        k + en_contribution (cpu_rq (acquire_cpus domain s) c) \<and>
      nr_running (cpu_rq (release_cpus domain s) c) =
        k + en_contribution (cpu_rq (release_cpus domain s) c) \<and>
      nr_running (cpu_rq (check_cpus domain s) c) =
        k + en_contribution (cpu_rq (check_cpus domain s) c))"
proof (intro conjI impI)
  assume "nr_running r = k + en_contribution r"
  then show "nr_running (uu_inc_nr_running r) = k + en_contribution (uu_inc_nr_running r)"
    by (simp add: uu_inc_nr_running_def add_nr_running_def en_contribution_def Let_def)
next
  assume "nr_running r = k + en_contribution r"
  then show "nr_running (uu_dec_nr_running r) = k + en_contribution (uu_dec_nr_running r)"
    by (simp add: uu_dec_nr_running_def sub_nr_running_def en_contribution_def Let_def)
next
  assume "en_blocked r \<and> nr_running r = k + en_contribution r"
  then show "nr_running (uu_acquire_cpu r) = k + en_contribution (uu_acquire_cpu r)"
    by (simp add: acquire_cpu_fields en_contribution_def)
next
  assume "\<not> en_blocked r \<and> nr_running r = k + en_contribution r"
  then show "nr_running (uu_release_cpu r) = k + en_contribution (uu_release_cpu r)"
    by (simp add: release_cpu_fields en_contribution_def)
next
  assume "nr_running (cpu_rq s c) = k + en_contribution (cpu_rq s c)"
  then show "nr_running (cpu_rq (acquire_cpus domain s) c) =
        k + en_contribution (cpu_rq (acquire_cpus domain s) c)"
    by (simp add: cpu_rq_acquire_cpus acquire_cpu_fields en_contribution_def)
next
  assume "nr_running (cpu_rq s c) = k + en_contribution (cpu_rq s c)"
  then show "nr_running (cpu_rq (release_cpus domain s) c) =
        k + en_contribution (cpu_rq (release_cpus domain s) c)"
    by (simp add: cpu_rq_release_cpus release_cpu_fields en_contribution_def)
next
  assume "nr_running (cpu_rq s c) = k + en_contribution (cpu_rq s c)"
  then show "nr_running (cpu_rq (check_cpus domain s) c) =
        k + en_contribution (cpu_rq (check_cpus domain s) c)"
    by (simp add: cpu_rq_check_cpus release_cpu_fields acquire_cpu_fields
        en_contribution_def)
qed (simp_all add: uu_inc_nr_running_def uu_dec_nr_running_def add_nr_running_def
       sub_nr_running_def acquire_cpu_fields release_cpu_fields en_contribution_def Let_def)

theorem nr_running_contribution_preserved_witness:
  "nr_running (example_rq 5 0 3 False) = 2 + en_contribution (example_rq 5 0 3 False) \<and>
   nr_running (uu_inc_nr_running (example_rq 5 0 3 False)) = 2 + 4 \<and>
   en_contribution (uu_inc_nr_running (example_rq 5 0 3 False)) = 4 \<and>
   nr_running (uu_dec_nr_running (example_rq 5 0 3 False)) = 2 + 2 \<and>
   en_contribution (uu_dec_nr_running (example_rq 5 0 3 False)) = 2 \<and>
   nr_running (uu_release_cpu (example_rq 5 0 3 False)) = 2 + 0 \<and>
   en_blocked (example_rq 2 0 3 True) \<and>
   nr_running (example_rq 2 0 3 True) = 2 + en_contribution (example_rq 2 0 3 True) \<and>
   nr_running (uu_acquire_cpu (example_rq 2 0 3 True)) = 2 + 3 \<and>
   nr_running (uu_inc_nr_running (example_rq 2 0 3 True)) = 2 + 0 \<and>
   en_nr_assigned (uu_inc_nr_running (example_rq 2 0 3 True)) = 4 \<and>
   nr_running (cpu_rq (acquire_cpus [True, True]
     (enter_example (example_rq 5 0 3 False) (example_rq 2 0 3 True) 6 0)) 1) = 2 + 3 \<and>
   nr_running (cpu_rq (release_cpus [True, True]
     (enter_example (example_rq 5 0 3 False) (example_rq 2 0 3 True) 6 0)) 0) = 2 + 3 \<and>
   nr_running (cpu_rq (check_cpus [True, True]
     (enter_example (example_rq 5 0 3 False) (example_rq 2 0 3 True) 6 0)) 1) = 2 + 3"
  using nr_running_contribution_preserved
          [of "example_rq 5 0 3 False" 2
              "enter_example (example_rq 5 0 3 False) (example_rq 2 0 3 True) 6 0" 0
              "[True, True]"]
        nr_running_contribution_preserved
          [of "example_rq 2 0 3 True" 2
              "enter_example (example_rq 5 0 3 False) (example_rq 2 0 3 True) 6 0" 1
              "[True, True]"]
  by (simp add: cpu_rq_enter_example example_rq_simps en_contribution_def
      cpu_rq_acquire_cpus cpu_rq_release_cpus cpu_rq_check_cpus cpumask_test_cpu_def
      acquire_cpu_fields release_cpu_fields uu_inc_nr_running_def uu_dec_nr_running_def
      add_nr_running_def sub_nr_running_def Let_def)

subsection \<open>The rotation of the ring of energy tasks\<close>

lemma set_ring_simps:
  "grq_tasks (grq (set_ring xs s)) = xs"
  "etasks (set_ring xs s) = etasks s"
  "set_ring xs (set_ring ys s) = set_ring xs s"
  by (simp_all add: set_ring_def upd_grq_def)

lemma pick_candidate_set_ring: "pick_candidate (set_ring xs s) = pick_candidate s"
  by (intro ext) (simp add: pick_candidate_def set_ring_simps)

lemma rotate_set_ring:
  "upd_grq (\<lambda>g. g\<lparr>grq_tasks := list_rotate_left (grq_tasks g)\<rparr>) (set_ring (r # xs) s)
     = set_ring (xs @ [r]) s"
  by (simp add: set_ring_def upd_grq_def list_rotate_left_def)

lemma pick_next_loop_step:
  "pick_next_loop head (set_ring (r # xs) s) =
     (if pick_candidate s r then Some (Some r, set_ring (xs @ [r]) s)
      else if head \<noteq> hd (xs @ [r]) then pick_next_loop head (set_ring (xs @ [r]) s)
      else Some (None, set_ring (xs @ [r]) s))"
  apply (subst pick_next_loop.simps)
  apply (simp add: set_ring_simps rotate_set_ring Let_def pick_candidate_def)
  apply (cases "xs @ [r]")
   apply simp_all
  done

lemma pick_next_loop_none:
  "rest \<noteq> [] \<Longrightarrow> distinct (pre @ rest) \<Longrightarrow> head = hd (pre @ rest) \<Longrightarrow>
   \<forall>e \<in> set rest. \<not> pick_candidate s e \<Longrightarrow>
   pick_next_loop head (set_ring (rest @ pre) s) = Some (None, set_ring (pre @ rest) s)"
proof (induction rest arbitrary: pre rule: list_nonempty_induct)
  case (single r)
  then have "head = hd (pre @ [r])" by simp
  with single show ?case
    by (simp add: pick_next_loop_step)
next
  case (cons r rest)
  obtain r' rest' where rest: "rest = r' # rest'"
    using cons.hyps by (cases rest) auto
  have ne: "head \<noteq> hd ((rest @ pre) @ [r])"
    using cons.prems rest by (cases pre) auto
  have "pick_next_loop head (set_ring ((r # rest) @ pre) s) =
          pick_next_loop head (set_ring (rest @ (pre @ [r])) s)"
    using cons.prems ne by (simp add: pick_next_loop_step)
  also have "\<dots> = Some (None, set_ring ((pre @ [r]) @ rest) s)"
    by (rule cons.IH) (use cons.prems in \<open>auto simp: hd_append\<close>)
  finally show ?case by simp
qed

lemma pick_next_loop_some:
  "distinct (pre @ skipped @ y # ys) \<Longrightarrow> head = hd (pre @ skipped @ y # ys) \<Longrightarrow>
   \<forall>e \<in> set skipped. \<not> pick_candidate s e \<Longrightarrow> pick_candidate s y \<Longrightarrow>
   pick_next_loop head (set_ring (skipped @ y # ys @ pre) s) =
     Some (Some y, set_ring (ys @ pre @ skipped @ [y]) s)"
proof (induction skipped arbitrary: pre)
  case Nil
  then show ?case by (simp add: pick_next_loop_step)
next
  case (Cons r skipped)
  have ne: "head \<noteq> hd ((skipped @ y # ys @ pre) @ [r])"
    using Cons.prems by (cases pre; cases skipped) auto
  have "pick_next_loop head (set_ring ((r # skipped) @ y # ys @ pre) s) =
          pick_next_loop head (set_ring (skipped @ y # ys @ (pre @ [r])) s)"
    using Cons.prems ne by (simp add: pick_next_loop_step)
  also have "\<dots> = Some (Some y, set_ring (ys @ (pre @ [r]) @ skipped @ [y]) s)"
    by (rule Cons.IH) (use Cons.prems in \<open>auto simp: hd_append\<close>)
  finally show ?case by simp
qed

lemma set_ring_same: "set_ring (grq_tasks (grq s)) s = s"
  by (simp add: set_ring_def upd_grq_def)

lemma pick_next_energy_task_none:
  assumes "grq_tasks (grq s) \<noteq> []" "distinct (grq_tasks (grq s))"
    "\<forall>e \<in> set (grq_tasks (grq s)). \<not> pick_candidate s e"
  shows "pick_next_energy_task s = Some (None, s)"
proof -
  obtain h rest where xs: "grq_tasks (grq s) = h # rest"
    using assms(1) by (cases "grq_tasks (grq s)") auto
  have "pick_next_loop h (set_ring (grq_tasks (grq s) @ []) s) =
          Some (None, set_ring ([] @ grq_tasks (grq s)) s)"
    by (rule pick_next_loop_none) (use assms xs in auto)
  then have "pick_next_loop h s = Some (None, s)"
    by (simp add: set_ring_same)
  then show ?thesis
    by (simp add: pick_next_energy_task_def xs)
qed

lemma pick_next_energy_task_some:
  assumes "grq_tasks (grq s) = skipped @ y # ys" "distinct (grq_tasks (grq s))"
    "\<forall>e \<in> set skipped. \<not> pick_candidate s e" "pick_candidate s y"
  shows "pick_next_energy_task s = Some (Some y, set_ring (ys @ skipped @ [y]) s)"
proof -
  obtain h rest where xs: "grq_tasks (grq s) = h # rest"
    by (cases "grq_tasks (grq s)") (use assms(1) in auto)
  have hh: "h = hd ([] @ skipped @ y # ys)"
    using xs assms(1) by (metis append_Nil list.sel(1))
  have "pick_next_loop h (set_ring (skipped @ y # ys @ []) s) =
          Some (Some y, set_ring (ys @ [] @ skipped @ [y]) s)"
    by (rule pick_next_loop_some [OF _ hh]) (use assms in auto)
  then have "pick_next_loop h s = Some (Some y, set_ring (ys @ skipped @ [y]) s)"
    using assms(1) set_ring_same [of s] by simp
  then show ?thesis
    by (simp add: pick_next_energy_task_def xs)
qed


lemma pick_next_energy_task_only:
  assumes d: "distinct (grq_tasks (grq s))" and b: "b \<in> set (grq_tasks (grq s))"
    and only: "\<forall>e \<in> set (grq_tasks (grq s)). pick_candidate s e \<longleftrightarrow> e = b"
  shows "\<exists>xs. set xs = set (grq_tasks (grq s)) \<and> distinct xs \<and> last xs = b \<and>
           pick_next_energy_task s = Some (Some b, set_ring xs s)"
proof -
  obtain skipped ys where sp: "grq_tasks (grq s) = skipped @ b # ys"
    using b by (meson split_list)
  have nb: "b \<notin> set skipped" using d sp by simp
  have sk: "\<forall>e \<in> set skipped. \<not> pick_candidate s e"
    using only nb sp by auto
  have cb: "pick_candidate s b" using only b by simp
  have "pick_next_energy_task s = Some (Some b, set_ring (ys @ skipped @ [b]) s)"
    by (rule pick_next_energy_task_some [OF sp d sk cb])
  moreover have "set (ys @ skipped @ [b]) = set (grq_tasks (grq s))"
    using sp by auto
  moreover have "distinct (ys @ skipped @ [b])" using d sp by auto
  ultimately show ?thesis by (intro exI [of _ "ys @ skipped @ [b]"]) simp
qed

lemma pick_next_energy_task_last:
  assumes d: "distinct xs" and l: "xs \<noteq> []" "last xs = b"
    and only: "\<forall>e \<in> set xs. pick_candidate s e \<longleftrightarrow> e = b"
  shows "pick_next_energy_task (set_ring xs s) = Some (Some b, set_ring xs s)"
proof -
  have xs: "xs = butlast xs @ b # []" using l by (metis append_butlast_last_id)
  have nb: "b \<notin> set (butlast xs)" using d xs by (metis distinct_append disjoint_iff list.set_intros(1))
  have "pick_next_energy_task (set_ring xs s) =
          Some (Some b, set_ring ([] @ butlast xs @ [b]) (set_ring xs s))"
  proof (rule pick_next_energy_task_some)
    show "grq_tasks (grq (set_ring xs s)) = butlast xs @ b # []"
      using xs by (simp add: set_ring_simps)
    show "distinct (grq_tasks (grq (set_ring xs s)))" using d by (simp add: set_ring_simps)
    show "\<forall>e\<in>set (butlast xs). \<not> pick_candidate (set_ring xs s) e"
      using only nb by (auto simp: pick_candidate_set_ring dest: in_set_butlastD)
    show "pick_candidate (set_ring xs s) b"
      using only l last_in_set [of xs] by (simp add: pick_candidate_set_ring)
  qed
  then show ?thesis using xs by (simp add: set_ring_simps)
qed

lemma pick_candidate_set_running:
  "pick_candidate (set_running b s) e \<longleftrightarrow> e \<noteq> b \<and> pick_candidate s e"
  by (simp add: pick_candidate_def set_running_def upd_etask_def ETASK_RUNNING_def)

lemma grq_set_running: "grq (set_running b s) = grq s"
  by (simp add: set_running_def upd_etask_def)

lemma pick_next_energy_task_returns:
  assumes "grq_tasks (grq s) \<noteq> []" "distinct (grq_tasks (grq s))"
  shows "\<exists>r s'. pick_next_energy_task s = Some (r, s') \<and>
           (r = None \<longleftrightarrow> (\<forall>e \<in> set (grq_tasks (grq s)). \<not> pick_candidate s e))"
proof (cases "\<exists>e \<in> set (grq_tasks (grq s)). pick_candidate s e")
  case False
  then show ?thesis
    using pick_next_energy_task_none [OF assms] by simp
next
  case True
  then obtain skipped y ys where sp: "grq_tasks (grq s) = skipped @ y # ys"
    "pick_candidate s y" "\<forall>e \<in> set skipped. \<not> pick_candidate s e"
    by (rule split_list_first_propE)
  have "pick_next_energy_task s = Some (Some y, set_ring (ys @ skipped @ [y]) s)"
    by (rule pick_next_energy_task_some [OF sp(1) assms(2) sp(3) sp(2)])
  moreover have "\<not> (\<forall>e \<in> set (grq_tasks (grq s)). \<not> pick_candidate s e)"
    using True by blast
  ultimately show ?thesis by blast
qed

text \<open>
  Claim C2. On a ring of distinct energy tasks \<open>pick_next_energy_task\<close> returns. It
  returns \<open>NULL\<close> exactly when no task of the ring is both not running and has a
  runnable thread, and then the ring is as before (a full rotation). Otherwise it
  returns the first such task in ring order, and the ring is rotated so that the
  returned task is last: the next scan starts after it. On a ring of exactly the tasks
  A (not running, no runnable thread), B (not running, 2 runnable threads) and C
  (running, 3 runnable threads), in any order, the call returns B, a second call returns
  B again, and once B is marked running a third call returns \<open>NULL\<close>.
\<close>

theorem pick_next_energy_task_ring:
  "(grq_tasks (grq s) \<noteq> [] \<and> distinct (grq_tasks (grq s)) \<and>
    (\<forall>e \<in> set (grq_tasks (grq s)). \<not> pick_candidate s e) \<longrightarrow>
      pick_next_energy_task s = Some (None, s)) \<and>
   (grq_tasks (grq s) = skipped @ y # ys \<and> distinct (grq_tasks (grq s)) \<and>
    (\<forall>e \<in> set skipped. \<not> pick_candidate s e) \<and> pick_candidate s y \<longrightarrow>
      pick_next_energy_task s = Some (Some y, set_ring (ys @ skipped @ [y]) s)) \<and>
   (grq_tasks (grq s) \<noteq> [] \<and> distinct (grq_tasks (grq s)) \<longrightarrow>
      (\<exists>r s'. pick_next_energy_task s = Some (r, s') \<and>
         (r = None \<longleftrightarrow> (\<forall>e \<in> set (grq_tasks (grq s)). \<not> pick_candidate s e)))) \<and>
   (distinct (grq_tasks (grq s)) \<and> set (grq_tasks (grq s)) = {a, b, c} \<and>
    et_state (etasks s a) = 0 \<and> et_nr_runnable (etasks s a) = 0 \<and>
    et_state (etasks s b) = 0 \<and> et_nr_runnable (etasks s b) = 2 \<and>
    et_state (etasks s c) = ETASK_RUNNING \<and> et_nr_runnable (etasks s c) = 3 \<longrightarrow>
      (\<exists>s1. pick_next_energy_task s = Some (Some b, s1) \<and>
            pick_next_energy_task s1 = Some (Some b, s1) \<and>
            pick_next_energy_task (set_running b s1) = Some (None, set_running b s1)))"
proof (intro conjI impI)
  assume "grq_tasks (grq s) \<noteq> [] \<and> distinct (grq_tasks (grq s)) \<and>
    (\<forall>e \<in> set (grq_tasks (grq s)). \<not> pick_candidate s e)"
  then show "pick_next_energy_task s = Some (None, s)"
    by (simp add: pick_next_energy_task_none)
next
  assume "grq_tasks (grq s) = skipped @ y # ys \<and> distinct (grq_tasks (grq s)) \<and>
    (\<forall>e \<in> set skipped. \<not> pick_candidate s e) \<and> pick_candidate s y"
  then show "pick_next_energy_task s = Some (Some y, set_ring (ys @ skipped @ [y]) s)"
    by (elim conjE) (rule pick_next_energy_task_some)
next
  assume "grq_tasks (grq s) \<noteq> [] \<and> distinct (grq_tasks (grq s))"
  then show "\<exists>r s'. pick_next_energy_task s = Some (r, s') \<and>
         (r = None \<longleftrightarrow> (\<forall>e \<in> set (grq_tasks (grq s)). \<not> pick_candidate s e))"
    by (elim conjE) (rule pick_next_energy_task_returns)
next
  assume h: "distinct (grq_tasks (grq s)) \<and> set (grq_tasks (grq s)) = {a, b, c} \<and>
    et_state (etasks s a) = 0 \<and> et_nr_runnable (etasks s a) = 0 \<and>
    et_state (etasks s b) = 0 \<and> et_nr_runnable (etasks s b) = 2 \<and>
    et_state (etasks s c) = ETASK_RUNNING \<and> et_nr_runnable (etasks s c) = 3"
  have only: "\<forall>e \<in> set (grq_tasks (grq s)). pick_candidate s e \<longleftrightarrow> e = b"
    using h by (auto simp: pick_candidate_def ETASK_RUNNING_def)
  obtain xs where xs: "set xs = set (grq_tasks (grq s))" "distinct xs" "last xs = b"
    "pick_next_energy_task s = Some (Some b, set_ring xs s)"
    using pick_next_energy_task_only [of s b] h only by auto
  have ne: "xs \<noteq> []" using xs(1) h by auto
  have only': "\<forall>e \<in> set xs. pick_candidate s e \<longleftrightarrow> e = b"
    using only xs(1) by simp
  have second: "pick_next_energy_task (set_ring xs s) = Some (Some b, set_ring xs s)"
    by (rule pick_next_energy_task_last [OF xs(2) ne xs(3) only'])
  have third: "pick_next_energy_task (set_running b (set_ring xs s)) =
                 Some (None, set_running b (set_ring xs s))"
  proof (rule pick_next_energy_task_none)
    show "grq_tasks (grq (set_running b (set_ring xs s))) \<noteq> []"
      using ne by (simp add: grq_set_running set_ring_simps)
    show "distinct (grq_tasks (grq (set_running b (set_ring xs s))))"
      using xs(2) by (simp add: grq_set_running set_ring_simps)
    show "\<forall>e\<in>set (grq_tasks (grq (set_running b (set_ring xs s)))).
            \<not> pick_candidate (set_running b (set_ring xs s)) e"
      using only' by (simp add: grq_set_running set_ring_simps pick_candidate_set_running
          pick_candidate_set_ring)
  qed
  show "\<exists>s1. pick_next_energy_task s = Some (Some b, s1) \<and>
            pick_next_energy_task s1 = Some (Some b, s1) \<and>
            pick_next_energy_task (set_running b s1) = Some (None, set_running b s1)"
    using xs(4) second third by blast
qed

lemma ring_example_simps:
  "grq_tasks (grq ring_example) = [10, 20, 30]"
  "etasks ring_example 10 = example_etask 0 [] [] 0"
  "etasks ring_example 20 = example_etask 0 [] [21, 22] 2"
  "etasks ring_example 30 = example_etask ETASK_RUNNING [True, True] [31, 32, 33] 3"
  by (simp_all add: ring_example_def)

lemma example_etask_simps:
  "et_state (example_etask st d ts n) = st"
  "et_nr_runnable (example_etask st d ts n) = n"
  "et_runnable (example_etask st d ts n) = ts"
  "et_domain (example_etask st d ts n) = d"
  by (simp_all add: example_etask_def)

theorem pick_next_energy_task_ring_witness:
  "pick_next_energy_task ring_example = Some (Some 20, set_ring [30, 10, 20] ring_example) \<and>
   pick_next_energy_task (set_ring [30, 10, 20] ring_example) =
     Some (Some 20, set_ring [30, 10, 20] ring_example) \<and>
   pick_next_energy_task (set_running 20 (set_ring [30, 10, 20] ring_example)) =
     Some (None, set_running 20 (set_ring [30, 10, 20] ring_example))"
proof (intro conjI)
  show "pick_next_energy_task ring_example =
          Some (Some 20, set_ring [30, 10, 20] ring_example)"
    using pick_next_energy_task_ring [of ring_example "[10]" 20 "[30]" 10 20 30,
        THEN conjunct2, THEN conjunct1]
    by (simp add: ring_example_simps example_etask_simps pick_candidate_def)
  show "pick_next_energy_task (set_ring [30, 10, 20] ring_example) =
          Some (Some 20, set_ring [30, 10, 20] ring_example)"
    using pick_next_energy_task_ring
        [of "set_ring [30, 10, 20] ring_example" "[30, 10]" 20 "[]" 10 20 30,
         THEN conjunct2, THEN conjunct1]
    by (simp add: ring_example_simps example_etask_simps set_ring_simps pick_candidate_def
        ETASK_RUNNING_def)
  show "pick_next_energy_task (set_running 20 (set_ring [30, 10, 20] ring_example)) =
          Some (None, set_running 20 (set_ring [30, 10, 20] ring_example))"
    using pick_next_energy_task_ring
        [of "set_running 20 (set_ring [30, 10, 20] ring_example)" "[]" 10 "[]" 10 20 30,
         THEN conjunct1]
    by (simp add: ring_example_simps example_etask_simps set_ring_simps pick_candidate_def
        grq_set_running set_running_def upd_etask_def ETASK_RUNNING_def)
qed

subsection \<open>Starting energy management for a process\<close>

lemma length_attempt_statuses: "length (attempt_statuses h pol ts k) = length ts"
  by (induction ts arbitrary: k) simp_all

lemma attempt_statuses_Nil_iff: "attempt_statuses h pol ts k = [] \<longleftrightarrow> ts = []"
  using length_attempt_statuses [of h pol ts k] by (metis length_0_conv)

lemma set_policy_loop_eq:
  "set_policy_loop h pol ts (ret, k) =
     (if ts = [] then ret else last (attempt_statuses h pol ts k),
      foldl (\<lambda>k t. snd (sched_setscheduler_nocheck h t pol 0 k)) k ts)"
proof (induction ts arbitrary: ret k)
  case Nil
  then show ?case by simp
next
  case (Cons t ts)
  obtain r k' where st: "sched_setscheduler_nocheck h t pol 0 k = (r, k')"
    by (cases "sched_setscheduler_nocheck h t pol 0 k")
  show ?case
    using Cons.IH [of r k'] by (simp add: st attempt_statuses_Nil_iff)
qed

text \<open>
  The result of \<open>do_start_energy\<close> and \<open>do_stop_energy\<close> on every input: \<open>-EINVAL\<close>
  and no change for a negative pid; pid 0 is the caller's own task; \<open>-ESRCH\<close> and no
  change when \<open>find_task_by_vpid\<close> finds no task; otherwise the policy switch is
  attempted on every thread of the group leader of the resolved task, in order and
  whatever the attempts before returned, and \<open>ret\<close> is overwritten by each attempt.
\<close>

lemma do_start_energy_result:
  "(pid < 0 \<longrightarrow> do_start_energy h pid k = (- EINVAL, k)) \<and>
   (0 < pid \<and> find_task_by_vpid h pid = None \<longrightarrow> do_start_energy h pid k = (- ESRCH, k)) \<and>
   ((pid = 0 \<and> p = host_current h \<or> 0 < pid \<and> find_task_by_vpid h pid = Some p) \<and>
    ts = for_each_thread h (find_task (host_group_leader h) p) \<longrightarrow>
      snd (do_start_energy h pid k) =
        foldl (\<lambda>k t. snd (sched_setscheduler_nocheck h t SCHED_ENERGY 0 k)) k ts \<and>
      length (attempt_statuses h SCHED_ENERGY ts k) = length ts \<and>
      fst (do_start_energy h pid k) =
        (if ts = [] then - ESRCH else last (attempt_statuses h SCHED_ENERGY ts k)) \<and>
      fst (do_stop_energy h pid k) =
        (if ts = [] then - ESRCH else last (attempt_statuses h SCHED_NORMAL ts k)))"
  by (auto simp: do_start_energy_def do_stop_energy_def set_policy_loop_eq
      length_attempt_statuses)

text \<open>
  Claim C9. The claim says that \<open>do_start_energy\<close> propagates the first per-thread
  switch failure, and the function's comment that it returns 0 on success and an error
  otherwise. The code does not: on a process with the threads 1 and 2, where the switch
  fails with \<open>-EINVAL\<close> (-22) on thread 1 and succeeds on thread 2, the statuses of the
  attempts are -22 and 0, their first failure is -22, and \<open>do_start_energy\<close>, called by
  thread 2 with pid 0 or with the pid of the process, switches thread 2 only and
  returns 0; \<open>do_stop_energy\<close> does the same. A failure is returned only when it is the
  failure of the last thread, as on the same process with the failure on thread 2.
\<close>

theorem do_start_energy_first_failure_lost:
  "for_each_thread (example_host 1)
     (find_task (host_group_leader (example_host 1)) (host_current (example_host 1))) = [1, 2] \<and>
   attempt_statuses (example_host 1) SCHED_ENERGY [1, 2] [] = [- 22, 0] \<and>
   first_failure (attempt_statuses (example_host 1) SCHED_ENERGY [1, 2] []) = - 22 \<and>
   do_start_energy (example_host 1) 0 [] = (0, [(2, SCHED_ENERGY)]) \<and>
   do_start_energy (example_host 1) 100 [] = (0, [(2, SCHED_ENERGY)]) \<and>
   do_stop_energy (example_host 1) 0 [] = (0, [(2, SCHED_NORMAL)]) \<and>
   attempt_statuses (example_host 2) SCHED_ENERGY [1, 2] [] = [0, - 22] \<and>
   do_start_energy (example_host 2) 0 [] = (- 22, [(1, SCHED_ENERGY)])"
  by (simp add: do_start_energy_def do_stop_energy_def example_host_def find_task_def
      thread_group_leader_def first_failure_def)

subsection \<open>The global thread count\<close>

lemma sum_nr_upd:
  fixes f :: "nat \<Rightarrow> u32"
  shows "distinct xs \<Longrightarrow> e \<in> set xs \<Longrightarrow>
         sum_list (map (f(e := v)) xs) = sum_list (map f xs) - f e + v"
proof (induction xs)
  case Nil
  then show ?case by simp
next
  case (Cons x xs)
  show ?case
  proof (cases "x = e")
    case True
    then have "e \<notin> set xs" using Cons.prems by simp
    then have m: "map (f(e := v)) xs = map f xs" by (rule map_fun_upd)
    show ?thesis unfolding list.map sum_list.Cons m using True by simp
  next
    case False
    then show ?thesis using Cons by simp
  qed
qed

lemma sum_nr_remove1_zero:
  fixes f :: "nat \<Rightarrow> u32"
  shows "f e = 0 \<Longrightarrow> sum_list (map f (remove1 e xs)) = sum_list (map f xs)"
  by (induction xs) auto

lemma sum_nr_cong:
  fixes f g :: "nat \<Rightarrow> u32"
  shows "\<forall>x \<in> set xs. f x = g x \<Longrightarrow> sum_list (map f xs) = sum_list (map g xs)"
  by (induction xs) auto

lemma inv_enqueue:
  assumes "distinct (grq_tasks (grq s))" "e \<in> set (grq_tasks (grq s))"
    "grq_nr_threads (grq s) = sum_nr_runnable s" "enqueue_runnable c e t s = Some s'"
  shows "grq_tasks (grq s') = grq_tasks (grq s) \<and> grq_nr_threads (grq s') = sum_nr_runnable s'"
proof -
  have s': "s' = upd_rq c uu_inc_nr_running
        (upd_grq (\<lambda>g. g\<lparr>grq_nr_threads := grq_nr_threads g + 1\<rparr>)
        (upd_thread t (\<lambda>x. x\<lparr>ee_state := ee_state x OR THREAD_RQ_RUNNABLE\<rparr>)
        (upd_etask e (\<lambda>x. x\<lparr>et_runnable := t # et_runnable x,
                                     et_nr_runnable := et_nr_runnable x + 1\<rparr>) s)))"
    using assms(4) by (simp add: enqueue_runnable_def Let_def split: if_splits)
  have t: "grq_tasks (grq s') = grq_tasks (grq s)"
    by (simp add: s' upd_rq_def upd_grq_def upd_thread_def upd_etask_def)
  have n: "grq_nr_threads (grq s') = grq_nr_threads (grq s) + 1"
    by (simp add: s' upd_rq_def upd_grq_def upd_thread_def upd_etask_def)
  have f: "(\<lambda>x. et_nr_runnable (etasks s' x)) =
             (\<lambda>x. et_nr_runnable (etasks s x))(e := et_nr_runnable (etasks s e) + 1)"
    by (intro ext) (simp add: s' upd_rq_def upd_grq_def upd_thread_def upd_etask_def)
  have "sum_nr_runnable s' = sum_nr_runnable s + 1"
    unfolding sum_nr_runnable_def t f
    using assms(1,2) by (simp add: sum_nr_upd)
  then show ?thesis using t n assms(3) by simp
qed

lemma inv_dequeue:
  assumes "distinct (grq_tasks (grq s))" "e \<in> set (grq_tasks (grq s))"
    "grq_nr_threads (grq s) = sum_nr_runnable s" "dequeue_runnable e t s = Some s'"
  shows "grq_tasks (grq s') = grq_tasks (grq s) \<and> grq_nr_threads (grq s') = sum_nr_runnable s'"
proof -
  define s1 where "s1 = upd_grq (\<lambda>g. g\<lparr>grq_nr_threads := grq_nr_threads g - 1\<rparr>)
        (upd_thread t (\<lambda>x. x\<lparr>ee_state := ee_state x AND NOT THREAD_RQ_RUNNABLE\<rparr>)
        (upd_etask e (\<lambda>x. x\<lparr>et_runnable := remove1 t (et_runnable x),
                                     et_nr_runnable := et_nr_runnable x - 1\<rparr>) s))"
  have s': "s' = upd_rq (task_rq s1 t) uu_dec_nr_running s1"
    using assms(4) by (simp add: dequeue_runnable_def Let_def s1_def split: if_splits)
  have t: "grq_tasks (grq s') = grq_tasks (grq s)"
    by (simp add: s' s1_def upd_rq_def upd_grq_def upd_thread_def upd_etask_def)
  have n: "grq_nr_threads (grq s') = grq_nr_threads (grq s) - 1"
    by (simp add: s' s1_def upd_rq_def upd_grq_def upd_thread_def upd_etask_def)
  have f: "(\<lambda>x. et_nr_runnable (etasks s' x)) =
             (\<lambda>x. et_nr_runnable (etasks s x))(e := et_nr_runnable (etasks s e) - 1)"
    by (intro ext) (simp add: s' s1_def upd_rq_def upd_grq_def upd_thread_def upd_etask_def)
  have "sum_nr_runnable s' = sum_nr_runnable s - 1"
    unfolding sum_nr_runnable_def t f
    using assms(1,2) by (simp add: sum_nr_upd)
  then show ?thesis using t n assms(3) by simp
qed

lemma inv_create:
  assumes "distinct (grq_tasks (grq s))" "e \<notin> set (grq_tasks (grq s))"
    "grq_nr_threads (grq s) = sum_nr_runnable s"
  shows "distinct (grq_tasks (grq (snd (create_energy_task (Some e) t s)))) \<and>
         grq_nr_threads (grq (snd (create_energy_task (Some e) t s))) =
           sum_nr_runnable (snd (create_energy_task (Some e) t s))"
proof -
  let ?s' = "snd (create_energy_task (Some e) t s)"
  have t: "grq_tasks (grq ?s') = e # grq_tasks (grq s)"
    by (simp add: create_energy_task_def Let_def enqueue_energy_task_def upd_grq_def
        upd_etask_def)
  have n: "grq_nr_threads (grq ?s') = grq_nr_threads (grq s)"
    by (simp add: create_energy_task_def Let_def enqueue_energy_task_def upd_grq_def
        upd_etask_def)
  have e0: "et_nr_runnable (etasks ?s' e) = 0"
    by (simp add: create_energy_task_def Let_def enqueue_energy_task_def upd_grq_def
        upd_etask_def init_energy_task_def)
  have other: "\<forall>x \<in> set (grq_tasks (grq s)).
                 et_nr_runnable (etasks ?s' x) = et_nr_runnable (etasks s x)"
    using assms(2)
    by (auto simp: create_energy_task_def Let_def enqueue_energy_task_def upd_grq_def
        upd_etask_def)
  have "sum_nr_runnable ?s' = sum_nr_runnable s"
    unfolding sum_nr_runnable_def t
    using e0 sum_nr_cong [OF other] by simp
  then show ?thesis using t n assms by simp
qed

lemma inv_free:
  assumes "distinct (grq_tasks (grq s))" "et_nr_runnable (etasks s e) = 0"
    "grq_nr_threads (grq s) = sum_nr_runnable s"
  shows "distinct (grq_tasks (grq (free_energy_task e s))) \<and>
         grq_nr_threads (grq (free_energy_task e s)) = sum_nr_runnable (free_energy_task e s)"
proof -
  have "sum_nr_runnable (free_energy_task e s) = sum_nr_runnable s"
    using assms(2)
    by (simp add: sum_nr_runnable_def free_energy_task_def dequeue_energy_task_def
        upd_grq_def sum_nr_remove1_zero)
  then show ?thesis
    using assms
    by (simp add: free_energy_task_def dequeue_energy_task_def upd_grq_def)
qed

lemma inv_pick:
  assumes d: "distinct (grq_tasks (grq s))" and p: "pick_next_energy_task s = Some (r, s')"
  shows "distinct (grq_tasks (grq s')) \<and> grq_nr_threads (grq s') = grq_nr_threads (grq s) \<and>
         sum_nr_runnable s' = sum_nr_runnable s"
proof -
  have ne: "grq_tasks (grq s) \<noteq> []"
    using p by (auto simp: pick_next_energy_task_def)
  show ?thesis
  proof (cases "\<exists>e \<in> set (grq_tasks (grq s)). pick_candidate s e")
    case False
    then have "pick_next_energy_task s = Some (None, s)"
      using pick_next_energy_task_none [OF ne d] by simp
    then show ?thesis using p d by simp
  next
    case True
    then obtain skipped y ys where sp: "grq_tasks (grq s) = skipped @ y # ys"
      "pick_candidate s y" "\<forall>e \<in> set skipped. \<not> pick_candidate s e"
      by (rule split_list_first_propE)
    have "pick_next_energy_task s = Some (Some y, set_ring (ys @ skipped @ [y]) s)"
      by (rule pick_next_energy_task_some [OF sp(1) d sp(3) sp(2)])
    then have s': "s' = set_ring (ys @ skipped @ [y]) s" using p by simp
    have "distinct (ys @ skipped @ [y])" using d sp(1) by auto
    moreover have "grq_nr_threads (grq s') = grq_nr_threads (grq s)"
      by (simp add: s' set_ring_def upd_grq_def)
    moreover have "sum_nr_runnable s' = sum_nr_runnable s"
      by (simp add: sum_nr_runnable_def s' set_ring_simps sp(1) ac_simps)
    ultimately show ?thesis by (simp add: s' set_ring_simps)
  qed
qed

lemma reachable_invariant:
  "reachable s \<Longrightarrow>
   distinct (grq_tasks (grq s)) \<and> grq_nr_threads (grq s) = sum_nr_runnable s"
proof (induction rule: reachable.induct)
  case (reach_init s)
  then show ?case by (simp add: init_grq_def upd_grq_def sum_nr_runnable_def)
next
  case (reach_create s e t)
  then show ?case using inv_create [of s e t] by simp
next
  case (reach_free s e)
  then show ?case using inv_free [of s e] by simp
next
  case (reach_enqueue s e c t s')
  then show ?case using inv_enqueue [of s e c t s'] by simp
next
  case (reach_dequeue s e t s')
  then show ?case using inv_dequeue [of s e t s'] by simp
next
  case (reach_pick s r s')
  then show ?case using inv_pick [of s r s'] by simp
next
  case (reach_other s s')
  have "sum_nr_runnable s' = sum_nr_runnable s"
    unfolding sum_nr_runnable_def reach_other.hyps(2)
    by (rule sum_nr_cong) (use reach_other.hyps(4) in simp)
  then show ?case using reach_other by simp
qed

lemma unat_sum_list_u32:
  fixes f :: "nat \<Rightarrow> u32"
  shows "unat (sum_list (map f xs)) = sum_list (map (\<lambda>x. unat (f x)) xs) mod 2 ^ 32"
proof (induction xs)
  case Nil
  then show ?case by simp
next
  case (Cons x xs)
  have "unat (f x + sum_list (map f xs)) = (unat (f x) + unat (sum_list (map f xs))) mod 2 ^ 32"
    by (simp add: unat_word_ariths)
  also have "\<dots> = (unat (f x) + sum_list (map (\<lambda>x. unat (f x)) xs) mod 2 ^ 32) mod 2 ^ 32"
    by (simp only: Cons.IH)
  also have "\<dots> = (unat (f x) + sum_list (map (\<lambda>x. unat (f x)) xs)) mod 2 ^ 32"
    by (rule mod_add_right_eq)
  finally show ?case by simp
qed

lemma unat_sum_nr_runnable:
  assumes "sum_list (map (\<lambda>e. unat (et_nr_runnable (etasks s e))) (grq_tasks (grq s))) < 2 ^ 32"
  shows "unat (sum_nr_runnable s) =
           sum_list (map (\<lambda>e. unat (et_nr_runnable (etasks s e))) (grq_tasks (grq s)))"
  using assms unfolding sum_nr_runnable_def
  by (simp only: unat_sum_list_u32 mod_less)


text \<open>
  Claim C1. In every reachable state of the global run queue, so after every
  \<open>enqueue_runnable\<close> and every \<open>dequeue_runnable\<close>, the global thread count
  \<open>grq.nr_threads\<close> is the sum of the \<open>nr_runnable\<close> counts of the energy tasks in
  \<open>grq.tasks\<close>. The sum is that of the 32-bit counters, and it is the sum of the
  counts as natural numbers whenever that sum fits the counter. The two functions stop
  in \<open>BUG()\<close> exactly when the thread is already queued, or not queued.
\<close>

theorem grq_nr_threads_invariant:
  "reachable s \<Longrightarrow>
   grq_nr_threads (grq s) = sum_nr_runnable s \<and>
   (sum_list (map (\<lambda>e. unat (et_nr_runnable (etasks s e))) (grq_tasks (grq s))) < 2 ^ 32 \<longrightarrow>
      unat (grq_nr_threads (grq s)) =
        sum_list (map (\<lambda>e. unat (et_nr_runnable (etasks s e))) (grq_tasks (grq s)))) \<and>
   (\<forall>c e t s'. e \<in> set (grq_tasks (grq s)) \<and> enqueue_runnable c e t s = Some s' \<longrightarrow>
      grq_nr_threads (grq s') = sum_nr_runnable s') \<and>
   (\<forall>e t s'. e \<in> set (grq_tasks (grq s)) \<and> dequeue_runnable e t s = Some s' \<longrightarrow>
      grq_nr_threads (grq s') = sum_nr_runnable s') \<and>
   (\<forall>c e t. enqueue_runnable c e t s = None \<longleftrightarrow> thread_on_rq_queued (threads s t)) \<and>
   (\<forall>e t. dequeue_runnable e t s = None \<longleftrightarrow> \<not> thread_on_rq_queued (threads s t))"
proof (intro conjI allI impI)
  assume r: "reachable s"
  show eq: "grq_nr_threads (grq s) = sum_nr_runnable s"
    using reachable_invariant [OF r] by simp
  show "unat (grq_nr_threads (grq s)) =
          sum_list (map (\<lambda>e. unat (et_nr_runnable (etasks s e))) (grq_tasks (grq s)))"
    if "sum_list (map (\<lambda>e. unat (et_nr_runnable (etasks s e))) (grq_tasks (grq s))) < 2 ^ 32"
    using that by (simp only: eq unat_sum_nr_runnable)
  show "grq_nr_threads (grq s') = sum_nr_runnable s'"
    if "e \<in> set (grq_tasks (grq s)) \<and> enqueue_runnable c e t s = Some s'" for c e t s'
  proof -
    have "reachable s'" using r that by (auto intro: reach_enqueue)
    then show ?thesis using reachable_invariant by simp
  qed
  show "grq_nr_threads (grq s') = sum_nr_runnable s'"
    if "e \<in> set (grq_tasks (grq s)) \<and> dequeue_runnable e t s = Some s'" for e t s'
  proof -
    have "reachable s'" using r that by (auto intro: reach_dequeue)
    then show ?thesis using reachable_invariant by simp
  qed
  show "enqueue_runnable c e t s = None \<longleftrightarrow> thread_on_rq_queued (threads s t)" for c e t
    by (simp add: enqueue_runnable_def Let_def)
  show "dequeue_runnable e t s = None \<longleftrightarrow> \<not> thread_on_rq_queued (threads s t)" for e t
    by (simp add: dequeue_runnable_def Let_def)
qed

lemma enqueue_runnable_fields:
  assumes "enqueue_runnable c e t s = Some s'"
  shows "grq_nr_threads (grq s') = grq_nr_threads (grq s) + 1"
    and "grq_tasks (grq s') = grq_tasks (grq s)"
    and "thread_on_rq_queued (threads s' t)"
proof -
  have s': "s' = upd_rq c uu_inc_nr_running
        (upd_grq (\<lambda>g. g\<lparr>grq_nr_threads := grq_nr_threads g + 1\<rparr>)
        (upd_thread t (\<lambda>x. x\<lparr>ee_state := ee_state x OR THREAD_RQ_RUNNABLE\<rparr>)
        (upd_etask e (\<lambda>x. x\<lparr>et_runnable := t # et_runnable x,
                                     et_nr_runnable := et_nr_runnable x + 1\<rparr>) s)))"
    using assms by (simp add: enqueue_runnable_def Let_def split: if_splits)
  show "grq_nr_threads (grq s') = grq_nr_threads (grq s) + 1"
    and "grq_tasks (grq s') = grq_tasks (grq s)"
    by (simp_all add: s' upd_rq_def upd_grq_def upd_thread_def upd_etask_def)
  have "ee_state (threads s' t) = ee_state (threads s t) OR 1"
    by (simp add: s' upd_rq_def upd_grq_def upd_thread_def upd_etask_def
        THREAD_RQ_RUNNABLE_def)
  moreover have "(ee_state (threads s t) OR 1) AND 1 = 1"
    by (simp add: bit.conj_disj_distrib2)
  ultimately show "thread_on_rq_queued (threads s' t)"
    by (simp add: thread_on_rq_queued_def THREAD_RQ_QUEUED_def THREAD_RQ_RUNNABLE_def)
qed

lemma dequeue_runnable_fields:
  assumes "dequeue_runnable e t s = Some s'"
  shows "grq_nr_threads (grq s') = grq_nr_threads (grq s) - 1"
  using assms
  by (auto simp: dequeue_runnable_def Let_def upd_rq_def upd_grq_def upd_thread_def
      upd_etask_def split: if_splits)

lemma thread_ring_example:
  "threads (snd (create_energy_task (Some 10) 5 (init_grq ring_example))) 5 =
     example_thread 0 0 [True, True]"
  by (simp add: create_energy_task_def Let_def enqueue_energy_task_def upd_grq_def
        upd_etask_def init_grq_def ring_example_def)

theorem grq_nr_threads_invariant_witness:
  "reachable (init_grq ring_example) \<and>
   grq_nr_threads (grq (init_grq ring_example)) = 0 \<and>
   sum_nr_runnable (init_grq ring_example) = 0 \<and>
   (case enqueue_runnable 0 10 5 (snd (create_energy_task (Some 10) 5 (init_grq ring_example)))
    of None \<Rightarrow> False
     | Some s' \<Rightarrow>
         reachable s' \<and> grq_nr_threads (grq s') = 1 \<and> sum_nr_runnable s' = 1 \<and>
         sum_list (map (\<lambda>e. unat (et_nr_runnable (etasks s' e))) (grq_tasks (grq s'))) = 1 \<and>
         (case dequeue_runnable 10 5 s' of
            None \<Rightarrow> False
          | Some s'' \<Rightarrow> grq_nr_threads (grq s'') = 0 \<and> sum_nr_runnable s'' = 0))"
proof -
  let ?s0 = "init_grq ring_example"
  let ?s1 = "snd (create_energy_task (Some 10) 5 ?s0)"
  have r0: "reachable ?s0" by (rule reach_init)
  have t0: "grq_tasks (grq ?s0) = []" and n0: "grq_nr_threads (grq ?s0) = 0"
    by (simp_all add: init_grq_def upd_grq_def)
  have r1: "reachable ?s1"
    by (rule reach_create [OF r0]) (simp add: t0)
  have t1: "grq_tasks (grq ?s1) = [10]" and n1: "grq_nr_threads (grq ?s1) = 0"
    by (simp_all add: create_energy_task_def Let_def enqueue_energy_task_def upd_grq_def
        upd_etask_def t0 n0)
  have "\<not> thread_on_rq_queued (threads ?s1 5)"
    by (simp add: thread_ring_example thread_on_rq_queued_def example_thread_def)
  then obtain s2 where s2: "enqueue_runnable 0 10 5 ?s1 = Some s2"
    by (simp add: enqueue_runnable_def Let_def)
  have r2: "reachable s2"
    by (rule reach_enqueue [OF r1 _ s2]) (simp add: t1)
  have n2: "grq_nr_threads (grq s2) = 1" and t2: "grq_tasks (grq s2) = [10]"
    using enqueue_runnable_fields [OF s2] n1 t1 by simp_all
  have "thread_on_rq_queued (threads s2 5)"
    by (rule enqueue_runnable_fields [OF s2])
  then obtain s3 where s3: "dequeue_runnable 10 5 s2 = Some s3"
    by (simp add: dequeue_runnable_def Let_def)
  have n3: "grq_nr_threads (grq s3) = 0"
    using dequeue_runnable_fields [OF s3] n2 by simp
  have e1: "grq_nr_threads (grq s2) = sum_nr_runnable s2"
    using grq_nr_threads_invariant [OF r1] s2 t1 by simp
  have e2: "grq_nr_threads (grq s3) = sum_nr_runnable s3"
    using grq_nr_threads_invariant [OF r2] s3 t2 by simp
  have u2: "sum_list (map (\<lambda>e. unat (et_nr_runnable (etasks s2 e))) (grq_tasks (grq s2))) = 1"
  proof -
    have "et_nr_runnable (etasks s2 10) = 1"
      using e1 n2 by (simp add: sum_nr_runnable_def t2)
    then show ?thesis by (simp add: t2)
  qed
  have "unat (grq_nr_threads (grq s2)) =
          sum_list (map (\<lambda>e. unat (et_nr_runnable (etasks s2 e))) (grq_tasks (grq s2)))"
    using grq_nr_threads_invariant [OF r2, THEN conjunct2, THEN conjunct1] u2 by simp
  then show ?thesis
    using grq_nr_threads_invariant [OF r0] r0 r2 n0 n2 n3 s2 s3 e1 e2 u2
    by simp
qed

subsection \<open>The distribution of threads to CPUs\<close>

lemma thread_queued_after_or:
  "thread_on_cpu_rq_queued (x\<lparr>ee_state := ee_state x OR THREAD_CPU_RUNNABLE\<rparr>)"
proof -
  have "(ee_state x OR 2) AND 2 = (2 :: 32 word)"
    by (simp add: bit.conj_disj_distrib2)
  then show ?thesis
    by (simp add: thread_on_cpu_rq_queued_def THREAD_CPU_QUEUED_def THREAD_CPU_RUNNABLE_def)
qed

lemma move_local_task_fields:
  "task_cpu (threads (move_local_task t c s) t) = c"
  "ee_state (threads (move_local_task t c s) t) = ee_state (threads s t)"
  "cpus_allowed (threads (move_local_task t c s) t) = cpus_allowed (threads s t)"
  "t' \<noteq> t \<Longrightarrow> threads (move_local_task t c s) t' = threads s t'"
  "en_nr_runnable (cpu_rq (move_local_task t c s) c') = en_nr_runnable (cpu_rq s c')"
  "en_runnable (cpu_rq (move_local_task t c s) c') = en_runnable (cpu_rq s c')"
  "etasks (move_local_task t c s) = etasks s"
  "grq (move_local_task t c s) = grq s"
  by (simp_all add: move_local_task_def Let_def upd_rq_def upd_thread_def task_rq_def
      uu_inc_nr_running_def uu_dec_nr_running_def add_nr_running_def sub_nr_running_def)

lemma distribute_local_task_fields:
  assumes nq: "\<not> thread_on_cpu_rq_queued (threads s t)"
  shows "\<exists>s'. distribute_local_task c t s = Some s' \<and>
           task_cpu (threads s' t) = c \<and>
           thread_on_cpu_rq_queued (threads s' t) \<and>
           cpus_allowed (threads s' t) = cpus_allowed (threads s t) \<and>
           (\<forall>t'. t' \<noteq> t \<longrightarrow> threads s' t' = threads s t') \<and>
           (\<forall>c'. en_nr_runnable (cpu_rq s' c') =
              (if c' = c then en_nr_runnable (cpu_rq s c) + 1 else en_nr_runnable (cpu_rq s c'))) \<and>
           (\<forall>c'. en_runnable (cpu_rq s' c') =
              (if c' = c then t # en_runnable (cpu_rq s c) else en_runnable (cpu_rq s c'))) \<and>
           etasks s' = etasks s \<and> grq s' = grq s"
proof -
  let ?s1 = "upd_rq c clear_resched_curr_local s"
  let ?s2 = "move_local_task t c ?s1"
  have th1: "threads ?s1 = threads s" and et1: "etasks ?s1 = etasks s" and g1: "grq ?s1 = grq s"
    by (simp_all add: upd_rq_def)
  have rq1: "en_nr_runnable (cpu_rq ?s1 c') = en_nr_runnable (cpu_rq s c')"
    "en_runnable (cpu_rq ?s1 c') = en_runnable (cpu_rq s c')" for c'
    by (simp_all add: upd_rq_def clear_resched_curr_local_def)
  have nq2: "\<not> thread_on_cpu_rq_queued (threads ?s2 t)"
    using nq by (simp add: thread_on_cpu_rq_queued_def move_local_task_fields th1)
  let ?s3 = "upd_thread t (\<lambda>x. x\<lparr>ee_state := ee_state x OR THREAD_CPU_RUNNABLE\<rparr>)
               (upd_rq c (\<lambda>r. r\<lparr>en_runnable := t # en_runnable r,
                                  en_nr_runnable := en_nr_runnable r + 1\<rparr>) ?s2)"
  have d: "distribute_local_task c t s = Some ?s3"
    using nq2 by (simp add: distribute_local_task_def enqueue_running_def Let_def)
  have a: "task_cpu (threads ?s3 t) = c"
    by (simp add: upd_thread_def upd_rq_def move_local_task_fields)
  have b: "thread_on_cpu_rq_queued (threads ?s3 t)"
    by (simp add: upd_thread_def thread_queued_after_or)
  have b': "cpus_allowed (threads ?s3 t) = cpus_allowed (threads s t)"
    by (simp add: upd_thread_def upd_rq_def move_local_task_fields th1)
  have c: "\<forall>t'. t' \<noteq> t \<longrightarrow> threads ?s3 t' = threads s t'"
    by (simp add: upd_thread_def upd_rq_def move_local_task_fields th1)
  have e: "\<forall>c'. en_nr_runnable (cpu_rq ?s3 c') =
              (if c' = c then en_nr_runnable (cpu_rq s c) + 1 else en_nr_runnable (cpu_rq s c'))"
    by (simp add: upd_thread_def upd_rq_def move_local_task_fields
        clear_resched_curr_local_def)
  have f: "\<forall>c'. en_runnable (cpu_rq ?s3 c') =
              (if c' = c then t # en_runnable (cpu_rq s c) else en_runnable (cpu_rq s c'))"
    by (simp add: upd_thread_def upd_rq_def move_local_task_fields
        clear_resched_curr_local_def)
  have g: "etasks ?s3 = etasks s" "grq ?s3 = grq s"
    by (simp_all add: upd_thread_def upd_rq_def move_local_task_fields et1 g1)
  show ?thesis
    using d a b b' c e f g by blast
qed


lemma best_choice_le:
  assumes "best_choice s cs b0 b"
  shows "sint (en_nr_runnable (cpu_rq s b)) \<le> sint (en_nr_runnable (cpu_rq s b0))"
    and "c \<in> set cs \<Longrightarrow> sint (en_nr_runnable (cpu_rq s b)) \<le> sint (en_nr_runnable (cpu_rq s c))"
    and "b = b0 \<or> b \<in> set cs"
  using assms by (auto simp: best_choice_def list_all_iff)

lemma takeWhile_neq_snoc: "x \<notin> set xs \<Longrightarrow> takeWhile (\<lambda>c. c \<noteq> x) (xs @ [x]) = xs"
  by (induction xs) auto

lemma takeWhile_neq_append:
  "b \<in> set xs \<Longrightarrow> takeWhile (\<lambda>c. c \<noteq> b) (xs @ ys) = takeWhile (\<lambda>c. c \<noteq> b) xs"
  by (induction xs) auto

lemma best_choice_snoc_new:
  assumes bc: "best_choice s xs b0 b"
    and lt: "sint (en_nr_runnable (cpu_rq s x)) < sint (en_nr_runnable (cpu_rq s b))"
  shows "best_choice s (xs @ [x]) b0 x"
proof -
  let ?L = "\<lambda>c. sint (en_nr_runnable (cpu_rq s c))"
  have 1: "?L x < ?L b0" using lt best_choice_le(1) [OF bc] by simp
  have 2: "?L x < ?L c" if "c \<in> set xs" for c
  proof -
    have "?L b \<le> ?L c" using that by (rule best_choice_le(2) [OF bc])
    then show ?thesis using lt by simp
  qed
  have nx: "x \<notin> set xs" using 2 by fastforce
  have tw: "takeWhile (\<lambda>c. c \<noteq> x) (xs @ [x]) = xs"
    using nx by (rule takeWhile_neq_snoc)
  have 3: "list_all (\<lambda>c. ?L x < ?L c) xs"
    using 2 by (simp add: list_all_iff)
  have 4: "list_all (\<lambda>c. ?L x \<le> ?L c) (xs @ [x])"
    using 2 by (auto simp: list_all_iff intro: less_imp_le)
  show ?thesis
    unfolding best_choice_def tw using 1 3 4 by simp
qed

lemma best_choice_snoc_keep:
  assumes bc: "best_choice s xs b0 b"
    and ge: "\<not> sint (en_nr_runnable (cpu_rq s x)) < sint (en_nr_runnable (cpu_rq s b))"
  shows "best_choice s (xs @ [x]) b0 b"
proof -
  let ?L = "\<lambda>c. sint (en_nr_runnable (cpu_rq s c))"
  from bc [unfolded best_choice_def] show ?thesis
  proof
    assume "b = b0 \<and> list_all (\<lambda>c. ?L b0 \<le> ?L c) xs"
    then have "b = b0 \<and> list_all (\<lambda>c. ?L b0 \<le> ?L c) (xs @ [x])"
      using ge by auto
    then show ?thesis unfolding best_choice_def by (rule disjI1)
  next
    assume a: "b \<in> set xs \<and> ?L b < ?L b0 \<and>
       list_all (\<lambda>c. ?L b < ?L c) (takeWhile (\<lambda>c. c \<noteq> b) xs) \<and>
       list_all (\<lambda>c. ?L b \<le> ?L c) xs"
    then have "b \<in> set xs" by simp
    then have tw: "takeWhile (\<lambda>c. c \<noteq> b) (xs @ [x]) = takeWhile (\<lambda>c. c \<noteq> b) xs"
      by (rule takeWhile_neq_append)
    have "list_all (\<lambda>c. ?L b \<le> ?L c) (xs @ [x])" using a ge by auto
    then show ?thesis
      unfolding best_choice_def tw using a by simp
  qed
qed

lemma fold_find_best:
  "\<exists>b. fold (find_best_step s) cs (b0, en_nr_runnable (cpu_rq s b0)) =
          (b, en_nr_runnable (cpu_rq s b)) \<and> best_choice s cs b0 b"
proof (induction cs rule: rev_induct)
  case Nil
  have "best_choice s [] b0 b0" by (simp add: best_choice_def)
  then show ?case by simp
next
  case (snoc x xs)
  then obtain b where fb: "fold (find_best_step s) xs (b0, en_nr_runnable (cpu_rq s b0)) =
          (b, en_nr_runnable (cpu_rq s b))"
    and bc: "best_choice s xs b0 b"
    by (elim exE conjE)
  show ?case
  proof (cases "sint (en_nr_runnable (cpu_rq s x)) < sint (en_nr_runnable (cpu_rq s b))")
    case True
    have "fold (find_best_step s) (xs @ [x]) (b0, en_nr_runnable (cpu_rq s b0)) =
            (x, en_nr_runnable (cpu_rq s x))"
      using True by (simp add: fb find_best_step_def word_sless_alt)
    then show ?thesis
      using best_choice_snoc_new [OF bc True] by (intro exI [of _ x] conjI)
  next
    case False
    have "fold (find_best_step s) (xs @ [x]) (b0, en_nr_runnable (cpu_rq s b0)) =
            (b, en_nr_runnable (cpu_rq s b))"
      using False by (simp add: fb find_best_step_def word_sless_alt)
    then show ?thesis
      using best_choice_snoc_keep [OF bc False] by (intro exI [of _ b] conjI)
  qed
qed

lemma find_best_rq_choice:
  "best_choice s (for_each_cpu_and (et_domain (etasks s e)) (cpus_allowed (threads s t)))
     (task_rq s t) (find_best_rq s e t)"
proof -
  let ?cs = "for_each_cpu_and (et_domain (etasks s e)) (cpus_allowed (threads s t))"
  obtain b where fb: "fold (find_best_step s) ?cs
        (task_rq s t, en_nr_runnable (cpu_rq s (task_rq s t))) =
          (b, en_nr_runnable (cpu_rq s b))"
    and bc: "best_choice s ?cs (task_rq s t) b"
    using fold_find_best [of s ?cs "task_rq s t"] by (elim exE conjE)
  have "find_best_rq s e t = b"
    by (simp add: find_best_rq_def fb)
  then show ?thesis using bc by simp
qed

lemma distribute_thread_Some: "\<exists>s'. distribute_thread e t s = Some s'"
proof (cases "thread_on_cpu_rq_queued (threads s t)")
  case True
  then show ?thesis by (simp add: distribute_thread_def)
next
  case False
  from distribute_local_task_fields [OF False, of "find_best_rq s e t"]
  obtain s' where "distribute_local_task (find_best_rq s e t) t s = Some s'"
    by blast
  then show ?thesis using False by (simp add: distribute_thread_def)
qed

lemma distribute_threads_Some: "\<exists>s'. distribute_threads e ts s = Some s'"
proof (induction ts arbitrary: s)
  case Nil
  then show ?case by simp
next
  case (Cons t ts)
  obtain s1 where "distribute_thread e t s = Some s1"
    using distribute_thread_Some by blast
  then show ?case using Cons.IH [of s1] by simp
qed

lemma uu_distribute_energy_task_Some: "\<exists>s'. uu_distribute_energy_task e s = Some s'"
proof -
  obtain s1 where "distribute_threads e (et_runnable (etasks s e)) s = Some s1"
    using distribute_threads_Some by blast
  then show ?thesis by (simp add: uu_distribute_energy_task_def)
qed


lemma for_each_cpu_and_two: "for_each_cpu_and [True, True] [True, True] = [0, 1]"
  by (simp add: for_each_cpu_and_def)

lemma find_best_rq_two:
  assumes "et_domain (etasks s e) = [True, True]" "cpus_allowed (threads s t) = [True, True]"
    "task_cpu (threads s t) < 2"
    "sint (en_nr_runnable (cpu_rq s 1)) < sint (en_nr_runnable (cpu_rq s 0))"
  shows "find_best_rq s e t = 1"
proof -
  have "task_cpu (threads s t) = 0 \<or> task_cpu (threads s t) = 1"
    using assms(3) by auto
  then show ?thesis
    using assms(1,2,4)
    by (auto simp: find_best_rq_def for_each_cpu_and_two task_rq_def find_best_step_def
        word_sless_alt)
qed

lemma distribute_two_threads:
  assumes dom: "et_domain (etasks s e) = [True, True]" and ne: "t1 \<noteq> t2"
    and nq1: "\<not> thread_on_cpu_rq_queued (threads s t1)"
    and nq2: "\<not> thread_on_cpu_rq_queued (threads s t2)"
    and al1: "cpus_allowed (threads s t1) = [True, True]"
    and al2: "cpus_allowed (threads s t2) = [True, True]"
    and p1: "task_cpu (threads s t1) < 2" and p2: "task_cpu (threads s t2) < 2"
    and l0: "en_nr_runnable (cpu_rq s 0) = 2" and l1: "en_nr_runnable (cpu_rq s 1) = 0"
  shows "\<exists>s1 s2. distribute_thread e t1 s = Some s1 \<and> task_cpu (threads s1 t1) = 1 \<and>
           en_nr_runnable (cpu_rq s1 0) = 2 \<and> en_nr_runnable (cpu_rq s1 1) = 1 \<and>
           distribute_thread e t2 s1 = Some s2 \<and> task_cpu (threads s2 t2) = 1 \<and>
           en_nr_runnable (cpu_rq s2 0) = 2 \<and> en_nr_runnable (cpu_rq s2 1) = 2 \<and>
           distribute_threads e [t1, t2] s = Some s2"
proof -
  have b1: "find_best_rq s e t1 = 1"
    by (rule find_best_rq_two [OF dom al1 p1]) (use l0 l1 in simp)
  from distribute_local_task_fields [OF nq1, of 1]
  obtain s1 where s1: "distribute_local_task 1 t1 s = Some s1"
    "task_cpu (threads s1 t1) = 1"
    "\<forall>t'. t' \<noteq> t1 \<longrightarrow> threads s1 t' = threads s t'"
    "\<forall>c'. en_nr_runnable (cpu_rq s1 c') =
              (if c' = 1 then en_nr_runnable (cpu_rq s 1) + 1 else en_nr_runnable (cpu_rq s c'))"
    "etasks s1 = etasks s"
    by blast
  have d1: "distribute_thread e t1 s = Some s1"
    using nq1 s1(1) by (simp add: distribute_thread_def b1)
  have th2: "threads s1 t2 = threads s t2" using s1(3) ne by simp
  have m0: "en_nr_runnable (cpu_rq s1 0) = 2" and m1: "en_nr_runnable (cpu_rq s1 1) = 1"
    using s1(4) l0 l1 by simp_all
  have b2: "find_best_rq s1 e t2 = 1"
    by (rule find_best_rq_two) (use m0 m1 in \<open>simp_all add: s1(5) dom th2 al2 p2\<close>)
  have nq2': "\<not> thread_on_cpu_rq_queued (threads s1 t2)" using nq2 th2 by simp
  from distribute_local_task_fields [OF nq2', of 1]
  obtain s2 where s2: "distribute_local_task 1 t2 s1 = Some s2"
    "task_cpu (threads s2 t2) = 1"
    "\<forall>c'. en_nr_runnable (cpu_rq s2 c') =
              (if c' = 1 then en_nr_runnable (cpu_rq s1 1) + 1 else en_nr_runnable (cpu_rq s1 c'))"
    by blast
  have d2: "distribute_thread e t2 s1 = Some s2"
    using nq2' s2(1) by (simp add: distribute_thread_def b2)
  have n0: "en_nr_runnable (cpu_rq s2 0) = 2" and n1: "en_nr_runnable (cpu_rq s2 1) = 2"
    using s2(3) m0 m1 by simp_all
  have "distribute_threads e [t1, t2] s = Some s2"
    by (simp add: d1 d2)
  then show ?thesis
    using d1 s1(2) m0 m1 d2 s2(2) n0 n1 by blast
qed


lemmas distribute_eval =
  uu_distribute_energy_task_def distribute_thread_def distribute_local_task_def
  find_best_rq_def find_best_step_def move_local_task_def enqueue_running_def
  thread_on_cpu_rq_queued_def task_rq_def for_each_cpu_and_def for_each_cpu_def
  upd_rq_def upd_thread_def clear_resched_curr_local_def resched_curr_local_def
  set_energy_task_def uu_inc_nr_running_def uu_dec_nr_running_def add_nr_running_def
  sub_nr_running_def two_cpu_state_def example_etask_def example_thread_def example_rq_def
  THREAD_CPU_QUEUED_def THREAD_CPU_RUNNABLE_def LOCAL_RESCHED_def ETASK_RUNNING_def
  placed_on_def queue_of_def count_of_def Let_def word_sless_alt

text \<open>
  The effect of one pass of the loop of \<open>__distribute_energy_task\<close>, on every state. A
  thread that is queued on a CPU run queue is skipped. A thread that is not is put first
  in the queue of the CPU that the search returns, and the count of that CPU is raised
  by one before the next thread is considered. The search starts from the thread's
  present CPU and goes through the CPUs of the task's domain intersected with the
  thread's allowed set: it returns the present CPU unless a CPU of the intersection has
  a lower count, and then the first enumerated CPU of the intersection with the lowest
  count (counts compared as signed 32-bit numbers). With two CPUs in the domain, two
  threads queued on CPU 0 and none on CPU 1, a first unassigned thread that is allowed
  and present on these CPUs goes to CPU 1, and a second one is placed against the count
  1 of CPU 1 and goes to CPU 1 as well.
\<close>

lemma distribute_thread_effect:
  "(thread_on_cpu_rq_queued (threads s t) \<longrightarrow> distribute_thread e t s = Some s) \<and>
   (\<not> thread_on_cpu_rq_queued (threads s t) \<longrightarrow>
      (\<exists>s'. distribute_thread e t s = Some s' \<and>
         task_cpu (threads s' t) = find_best_rq s e t \<and>
         thread_on_cpu_rq_queued (threads s' t) \<and>
         (\<forall>c. en_runnable (cpu_rq s' c) =
            (if c = find_best_rq s e t then t # en_runnable (cpu_rq s c)
             else en_runnable (cpu_rq s c))) \<and>
         (\<forall>c. en_nr_runnable (cpu_rq s' c) =
            (if c = find_best_rq s e t then en_nr_runnable (cpu_rq s c) + 1
             else en_nr_runnable (cpu_rq s c))))) \<and>
   best_choice s (for_each_cpu_and (et_domain (etasks s e)) (cpus_allowed (threads s t)))
     (task_rq s t) (find_best_rq s e t) \<and>
   find_best_rq s e t \<in> insert (task_rq s t)
     (set (for_each_cpu_and (et_domain (etasks s e)) (cpus_allowed (threads s t)))) \<and>
   (\<forall>c \<in> insert (task_rq s t)
          (set (for_each_cpu_and (et_domain (etasks s e)) (cpus_allowed (threads s t)))).
      sint (en_nr_runnable (cpu_rq s (find_best_rq s e t))) \<le> sint (en_nr_runnable (cpu_rq s c))) \<and>
   distribute_threads e (t # ts) s =
     Option.bind (distribute_thread e t s) (distribute_threads e ts) \<and>
   (\<exists>s'. uu_distribute_energy_task e s = Some s') \<and>
   (et_domain (etasks s e) = [True, True] \<and> t1 \<noteq> t2 \<and>
    \<not> thread_on_cpu_rq_queued (threads s t1) \<and> \<not> thread_on_cpu_rq_queued (threads s t2) \<and>
    cpus_allowed (threads s t1) = [True, True] \<and> cpus_allowed (threads s t2) = [True, True] \<and>
    task_cpu (threads s t1) < 2 \<and> task_cpu (threads s t2) < 2 \<and>
    en_nr_runnable (cpu_rq s 0) = 2 \<and> en_nr_runnable (cpu_rq s 1) = 0 \<longrightarrow>
      (\<exists>s1 s2. distribute_thread e t1 s = Some s1 \<and> task_cpu (threads s1 t1) = 1 \<and>
           en_nr_runnable (cpu_rq s1 0) = 2 \<and> en_nr_runnable (cpu_rq s1 1) = 1 \<and>
           distribute_thread e t2 s1 = Some s2 \<and> task_cpu (threads s2 t2) = 1 \<and>
           en_nr_runnable (cpu_rq s2 0) = 2 \<and> en_nr_runnable (cpu_rq s2 1) = 2 \<and>
           distribute_threads e [t1, t2] s = Some s2))"
proof (intro conjI impI)
  assume "thread_on_cpu_rq_queued (threads s t)"
  then show "distribute_thread e t s = Some s"
    by (simp add: distribute_thread_def)
next
  assume nq: "\<not> thread_on_cpu_rq_queued (threads s t)"
  from distribute_local_task_fields [OF nq, of "find_best_rq s e t"]
  obtain s' where s': "distribute_local_task (find_best_rq s e t) t s = Some s'"
    "task_cpu (threads s' t) = find_best_rq s e t"
    "thread_on_cpu_rq_queued (threads s' t)"
    "\<forall>c'. en_runnable (cpu_rq s' c') =
       (if c' = find_best_rq s e t then t # en_runnable (cpu_rq s (find_best_rq s e t))
        else en_runnable (cpu_rq s c'))"
    "\<forall>c'. en_nr_runnable (cpu_rq s' c') =
       (if c' = find_best_rq s e t then en_nr_runnable (cpu_rq s (find_best_rq s e t)) + 1
        else en_nr_runnable (cpu_rq s c'))"
    by blast
  have d: "distribute_thread e t s = Some s'"
    using nq s'(1) by (simp add: distribute_thread_def)
  have r: "\<forall>c. en_runnable (cpu_rq s' c) =
            (if c = find_best_rq s e t then t # en_runnable (cpu_rq s c)
             else en_runnable (cpu_rq s c))"
    using s'(4) by simp
  have n: "\<forall>c. en_nr_runnable (cpu_rq s' c) =
            (if c = find_best_rq s e t then en_nr_runnable (cpu_rq s c) + 1
             else en_nr_runnable (cpu_rq s c))"
    using s'(5) by simp
  show "\<exists>s'. distribute_thread e t s = Some s' \<and>
         task_cpu (threads s' t) = find_best_rq s e t \<and>
         thread_on_cpu_rq_queued (threads s' t) \<and>
         (\<forall>c. en_runnable (cpu_rq s' c) =
            (if c = find_best_rq s e t then t # en_runnable (cpu_rq s c)
             else en_runnable (cpu_rq s c))) \<and>
         (\<forall>c. en_nr_runnable (cpu_rq s' c) =
            (if c = find_best_rq s e t then en_nr_runnable (cpu_rq s c) + 1
             else en_nr_runnable (cpu_rq s c)))"
    using d s'(2,3) r n by (intro exI [of _ s'] conjI)
next
  show "best_choice s (for_each_cpu_and (et_domain (etasks s e)) (cpus_allowed (threads s t)))
     (task_rq s t) (find_best_rq s e t)"
    by (rule find_best_rq_choice)
next
  show "find_best_rq s e t \<in> insert (task_rq s t)
     (set (for_each_cpu_and (et_domain (etasks s e)) (cpus_allowed (threads s t))))"
    using best_choice_le(3) [OF find_best_rq_choice [of s e t]] by auto
next
  show "\<forall>c \<in> insert (task_rq s t)
          (set (for_each_cpu_and (et_domain (etasks s e)) (cpus_allowed (threads s t)))).
      sint (en_nr_runnable (cpu_rq s (find_best_rq s e t))) \<le> sint (en_nr_runnable (cpu_rq s c))"
    using best_choice_le(1,2) [OF find_best_rq_choice [of s e t]] by auto
next
  show "distribute_threads e (t # ts) s =
     Option.bind (distribute_thread e t s) (distribute_threads e ts)"
    by (simp split: option.splits)
next
  show "\<exists>s'. uu_distribute_energy_task e s = Some s'"
    by (rule uu_distribute_energy_task_Some)
next
  assume "et_domain (etasks s e) = [True, True] \<and> t1 \<noteq> t2 \<and>
    \<not> thread_on_cpu_rq_queued (threads s t1) \<and> \<not> thread_on_cpu_rq_queued (threads s t2) \<and>
    cpus_allowed (threads s t1) = [True, True] \<and> cpus_allowed (threads s t2) = [True, True] \<and>
    task_cpu (threads s t1) < 2 \<and> task_cpu (threads s t2) < 2 \<and>
    en_nr_runnable (cpu_rq s 0) = 2 \<and> en_nr_runnable (cpu_rq s 1) = 0"
  then show "\<exists>s1 s2. distribute_thread e t1 s = Some s1 \<and> task_cpu (threads s1 t1) = 1 \<and>
           en_nr_runnable (cpu_rq s1 0) = 2 \<and> en_nr_runnable (cpu_rq s1 1) = 1 \<and>
           distribute_thread e t2 s1 = Some s2 \<and> task_cpu (threads s2 t2) = 1 \<and>
           en_nr_runnable (cpu_rq s2 0) = 2 \<and> en_nr_runnable (cpu_rq s2 1) = 2 \<and>
           distribute_threads e [t1, t2] s = Some s2"
    by (elim conjE) (rule distribute_two_threads)
qed

text \<open>
  The example of the distribution on two CPUs, evaluated: the threads 5 and 6 are queued
  on CPU 0 and skipped, thread 3 goes to the empty CPU 1, and thread 4 is placed against
  the count 1 of CPU 1 and goes to CPU 1 as well.
\<close>

lemma distribute_example_placement:
  "thread_on_cpu_rq_queued (threads distribute_example 5) \<and>
   distribute_thread 10 5 distribute_example = Some distribute_example \<and>
   \<not> thread_on_cpu_rq_queued (threads distribute_example 3) \<and>
   \<not> thread_on_cpu_rq_queued (threads distribute_example 4) \<and>
   en_nr_runnable (cpu_rq distribute_example 0) = 2 \<and>
   en_nr_runnable (cpu_rq distribute_example 1) = 0 \<and>
   find_best_rq distribute_example 10 3 = 1 \<and>
   placed_on (distribute_thread 10 3 distribute_example) 3 = Some 1 \<and>
   count_of (distribute_thread 10 3 distribute_example) 1 = Some 1 \<and>
   placed_on (distribute_threads 10 [3, 4] distribute_example) 4 = Some 1 \<and>
   count_of (distribute_threads 10 [3, 4] distribute_example) 0 = Some 2 \<and>
   count_of (distribute_threads 10 [3, 4] distribute_example) 1 = Some 2 \<and>
   placed_on (uu_distribute_energy_task 10 distribute_example) 3 = Some 1 \<and>
   placed_on (uu_distribute_energy_task 10 distribute_example) 4 = Some 1 \<and>
   queue_of (uu_distribute_energy_task 10 distribute_example) 0 = Some [6, 5] \<and>
   queue_of (uu_distribute_energy_task 10 distribute_example) 1 = Some [4, 3]"
  by (simp add: distribute_example_def distribute_eval)

text \<open>
  Claim C5. The claim says that each thread not yet assigned is placed on a CPU of the
  task's domain intersected with the thread's allowed set, and the comments of the
  function that the threads are distributed on the CPUs of the energy domain, each on
  a CPU where it can run. The code does not keep to this, because the thread's present
  CPU is taken as the first candidate without a test. In \<open>empty_domain_example\<close> the
  task is not running and its domain is empty, as when a thread of a task that is not
  running leaves and the remaining threads are distributed again: the intersection is
  empty, and thread 3 is queued on its present CPU 0. In \<open>affinity_example\<close> the
  intersection is CPU 1 alone, and thread 3, which is not allowed on CPU 0, is queued
  on its present CPU 0, whose count is lower.
\<close>

theorem distribute_energy_task_outside_domain:
  "et_domain (etasks empty_domain_example 10) = [False, False] \<and>
   et_runnable (etasks empty_domain_example 10) = [3] \<and>
   \<not> thread_on_cpu_rq_queued (threads empty_domain_example 3) \<and>
   for_each_cpu_and (et_domain (etasks empty_domain_example 10))
     (cpus_allowed (threads empty_domain_example 3)) = [] \<and>
   placed_on (uu_distribute_energy_task 10 empty_domain_example) 3 = Some 0 \<and>
   queue_of (uu_distribute_energy_task 10 empty_domain_example) 0 = Some [3] \<and>
   count_of (uu_distribute_energy_task 10 empty_domain_example) 0 = Some 1 \<and>
   cpus_allowed (threads affinity_example 3) = [False, True] \<and>
   \<not> thread_on_cpu_rq_queued (threads affinity_example 3) \<and>
   for_each_cpu_and (et_domain (etasks affinity_example 10))
     (cpus_allowed (threads affinity_example 3)) = [1] \<and>
   placed_on (uu_distribute_energy_task 10 affinity_example) 3 = Some 0 \<and>
   queue_of (uu_distribute_energy_task 10 affinity_example) 0 = Some [3] \<and>
   queue_of (uu_distribute_energy_task 10 affinity_example) 1 = Some [7]"
  by (simp add: affinity_example_def empty_domain_example_def distribute_eval)

end
